theory Spec2Isabelle
  imports Complex_Main "HOL-Library.AList"
begin

section \<open>JavaScript values used by the budget code\<close>

text \<open>
  A JavaScript number is modelled as an exact value or \<open>NaN\<close>. Amounts, budgets and
  sums are exact rationals (no rounding, no overflow to an infinity); the year and the
  month read from a \<open>Date\<close> are an integer and a natural number. Arithmetic with
  \<open>NaN\<close> yields \<open>NaN\<close>, and every comparison with \<open>NaN\<close> is false, as in
  JavaScript.
\<close>

datatype 'a number = NaN | Num 'a

fun js_add :: "'a::plus number \<Rightarrow> 'a number \<Rightarrow> 'a number" where
  "js_add (Num a) (Num b) = Num (a + b)"
| "js_add _ _ = NaN"

fun js_sub :: "'a::minus number \<Rightarrow> 'a number \<Rightarrow> 'a number" where
  "js_sub (Num a) (Num b) = Num (a - b)"
| "js_sub _ _ = NaN"

fun js_mul :: "'a::times number \<Rightarrow> 'a number \<Rightarrow> 'a number" where
  "js_mul (Num a) (Num b) = Num (a * b)"
| "js_mul _ _ = NaN"

fun js_lt :: "'a::ord number \<Rightarrow> 'a number \<Rightarrow> bool" where
  "js_lt (Num a) (Num b) = (a < b)"
| "js_lt _ _ = False"

fun js_le :: "'a::ord number \<Rightarrow> 'a number \<Rightarrow> bool" where
  "js_le (Num a) (Num b) = (a \<le> b)"
| "js_le _ _ = False"

fun js_gt :: "'a::ord number \<Rightarrow> 'a number \<Rightarrow> bool" where
  "js_gt (Num a) (Num b) = (b < a)"
| "js_gt _ _ = False"

text \<open>Strict equality \<open>===\<close> on numbers: \<open>NaN\<close> equals nothing, itself included.\<close>

fun js_eq :: "'a number \<Rightarrow> 'a number \<Rightarrow> bool" where
  "js_eq (Num a) (Num b) = (a = b)"
| "js_eq _ _ = False"

text \<open>
  Reading a property yields \<open>undefined\<close> (\<open>None\<close>) when the key is absent; an
  arithmetic operator converts \<open>undefined\<close> to \<open>NaN\<close>.
\<close>

fun to_number :: "'a number option \<Rightarrow> 'a number" where
  "to_number None = NaN"
| "to_number (Some v) = v"

text \<open>\<open>x || 0\<close>: the falsy values \<open>undefined\<close>, \<open>NaN\<close> and \<open>0\<close> give \<open>0\<close>.\<close>

fun js_or_zero :: "rat number option \<Rightarrow> rat number" where
  "js_or_zero None = Num 0"
| "js_or_zero (Some NaN) = Num 0"
| "js_or_zero (Some (Num a)) = (if a = 0 then Num 0 else Num a)"

text \<open>
  The errors of the model. \<open>TypeError\<close> is what JavaScript raises on reading a property
  of \<open>undefined\<close>. JavaScript does not raise on a zero divisor: it yields an infinity or
  \<open>NaN\<close>. The exact numbers of this model have no infinity, so a division whose divisor
  is zero is reported as \<open>DivisionByZero\<close>, which makes an unguarded division visible.
\<close>

datatype error = TypeError | DivisionByZero

fun js_div :: "rat number \<Rightarrow> rat number \<Rightarrow> error + rat number" where
  "js_div (Num a) (Num b) = (if b = 0 then Inl DivisionByZero else Inr (Num (a / b)))"
| "js_div NaN (Num b) = (if b = 0 then Inl DivisionByZero else Inr NaN)"
| "js_div _ NaN = Inr NaN"

text \<open>\<open>forEach\<close> and \<open>map\<close> with a callback that may raise: the first error ends the loop.\<close>

fun forEach_result :: "('a \<Rightarrow> 's \<Rightarrow> error + 's) \<Rightarrow> 'a list \<Rightarrow> 's \<Rightarrow> error + 's" where
  "forEach_result f [] s = Inr s"
| "forEach_result f (x # xs) s =
     (case f x s of Inl e \<Rightarrow> Inl e | Inr s' \<Rightarrow> forEach_result f xs s')"

fun map_result :: "('a \<Rightarrow> error + 'b) \<Rightarrow> 'a list \<Rightarrow> error + 'b list" where
  "map_result f [] = Inr []"
| "map_result f (x # xs) =
     (case f x of Inl e \<Rightarrow> Inl e
      | Inr y \<Rightarrow> (case map_result f xs of Inl e \<Rightarrow> Inl e | Inr ys \<Rightarrow> Inr (y # ys)))"

subsection \<open>Objects used as dictionaries\<close>

text \<open>
  An object \<open>{ [key: string]: number }\<close> is an association list in insertion order:
  assigning to an existing key replaces its value in place, assigning to a new key
  appends it. (The category identifiers are not integer-like strings, for which
  JavaScript would enumerate in numeric order.)
\<close>

type_synonym 'v obj = "(string \<times> 'v) list"

definition obj_get :: "'v obj \<Rightarrow> string \<Rightarrow> 'v option" where
  "obj_get ob k = map_of ob k"

definition obj_set :: "'v obj \<Rightarrow> string \<Rightarrow> 'v \<Rightarrow> 'v obj" where
  "obj_set ob k v = AList.update k v ob"

definition obj_keys :: "'v obj \<Rightarrow> string list" where
  "obj_keys ob = map fst ob"

definition obj_values :: "'v obj \<Rightarrow> 'v list" where
  "obj_values ob = map snd ob"

subsection \<open>Dates\<close>

text \<open>
  \<open>new Date(s)\<close> is the platform's parser, not code of this repository: the functions
  below take it as the parameter \<open>newDate\<close>. Of the \<open>Date\<close> it returns the code reads
  the UTC year and the UTC month only. An invalid date gives \<open>NaN\<close> for both; a valid
  one gives an integer year and a month index from 0 to 11.
\<close>

datatype month = January | February | March | April | May | June
  | July | August | September | October | November | December

fun month_index :: "month \<Rightarrow> nat" where
  "month_index January = 0"
| "month_index February = 1"
| "month_index March = 2"
| "month_index April = 3"
| "month_index May = 4"
| "month_index June = 5"
| "month_index July = 6"
| "month_index August = 7"
| "month_index September = 8"
| "month_index October = 9"
| "month_index November = 10"
| "month_index December = 11"

datatype jsdate = InvalidDate | UTCDate int month

fun getUTCFullYear :: "jsdate \<Rightarrow> int number" where
  "getUTCFullYear InvalidDate = NaN"
| "getUTCFullYear (UTCDate y mo) = Num y"

fun getUTCMonth :: "jsdate \<Rightarrow> nat number" where
  "getUTCMonth InvalidDate = NaN"
| "getUTCMonth (UTCDate y mo) = Num (month_index mo)"

section \<open>Data model (types.ts)\<close>

record BudgetCategory =
  id_cat :: string
  name_cat :: string
  description :: string
  budget :: rat
  color :: string

text \<open>\<open>isRecurring\<close>, \<open>linkedEventId\<close> and \<open>notes\<close> are optional fields.\<close>

record BudgetEntry =
  id_entry :: string
  name_entry :: string
  date :: string
  amount :: rat
  categoryId :: string
  isRecurring :: "bool option"
  linkedEventId :: "string option"
  notes_entry :: "string option"

text \<open>The truthiness test \<open>if (entry.isRecurring)\<close>: \<open>undefined\<close> and \<open>false\<close> fail it.\<close>

fun truthy :: "bool option \<Rightarrow> bool" where
  "truthy None = False"
| "truthy (Some b) = b"

text \<open>
  The nine categories of \<open>initialCategories\<close>. (The typographic apostrophe of the last
  description is written as an ASCII one; no function reads the descriptions.)
\<close>

definition initialCategories :: "BudgetCategory list" where
  "initialCategories =
    [\<lparr>id_cat = ''travel'', name_cat = ''Travel'',
      description = ''Holidays, weekend getaways, flights, hotels, tours, transportation for trips.'',
      budget = 1000, color = ''#3498db''\<rparr>,
     \<lparr>id_cat = ''living'', name_cat = ''Living'',
      description = ''Day-to-day essential expenses for running your life/home (e.g., Rent, Utilities, Groceries).'',
      budget = 2000, color = ''#e74c3c''\<rparr>,
     \<lparr>id_cat = ''leisure'', name_cat = ''Leisure'',
      description = ''Fun, hobbies, and non-essential enjoyment spending (e.g., Dining Out, Entertainment).'',
      budget = 500, color = ''#2ecc71''\<rparr>,
     \<lparr>id_cat = ''savings'', name_cat = ''Savings'',
      description = ''Long-term savings, investments.'',
      budget = 500, color = ''#f1c40f''\<rparr>,
     \<lparr>id_cat = ''health'', name_cat = ''Health & Fitness'',
      description = ''Staying healthy and fit (e.g., Medical, Gym, Sports Gear).'',
      budget = 200, color = ''#1abc9c''\<rparr>,
     \<lparr>id_cat = ''education'', name_cat = ''Education & Learning'',
      description = ''Self-improvement and skill-building (e.g., Courses, Books).'',
      budget = 200, color = ''#e67e22''\<rparr>,
     \<lparr>id_cat = ''gifts'', name_cat = ''Gifts & Giving'',
      description = ''Money spent on others or donations (e.g., Birthdays, Weddings).'',
      budget = 200, color = ''#9b59b6''\<rparr>,
     \<lparr>id_cat = ''crypto'', name_cat = ''Crypto'',
      description = ''Buying cryptocurrencies like Bitcoin, Ethereum, etc.'',
      budget = 100, color = ''#f39c12''\<rparr>,
     \<lparr>id_cat = ''misc'', name_cat = ''Miscellaneous'',
      description = ''Anything that doesn't fit in other categories (e.g., random purchases, unexpected expenses).'',
      budget = 100, color = ''#95a5a6''\<rparr>]"

section \<open>BudgetView.tsx\<close>

subsection \<open>monthlyBreakdown\<close>

type_synonym monthData = "rat number obj"

text \<open>\<open>categories.forEach(c => (monthData[c.id] = 0))\<close> on a fresh object.\<close>

definition zeroed :: "BudgetCategory list \<Rightarrow> monthData" where
  "zeroed categories = fold (\<lambda>c monthData. obj_set monthData (id_cat c) (Num 0)) categories []"

text \<open>
  \<open>breakdown[m][categoryId] += amount\<close>. Every call below has \<open>m\<close> within the twelve
  buckets; an absent key reads as \<open>undefined\<close>, and the sum is then \<open>NaN\<close>.
\<close>

definition add_to_bucket :: "monthData list \<Rightarrow> nat \<Rightarrow> string \<Rightarrow> rat \<Rightarrow> monthData list" where
  "add_to_bucket breakdown m k a =
     breakdown[m := obj_set (breakdown ! m) k
                      (js_add (to_number (obj_get (breakdown ! m) k)) (Num a))]"

text \<open>
  The body of \<open>budgetEntries.forEach\<close>. A loop \<open>for (let m = s; m < 12; m++)\<close> whose
  start is \<open>NaN\<close> does not run; \<open>breakdown[NaN]\<close> and a bucket beyond the array are
  \<open>undefined\<close>, which fails the guard of the one-time branch.
\<close>

definition monthlyBreakdown_entry ::
  "(string \<Rightarrow> jsdate) \<Rightarrow> int \<Rightarrow> BudgetEntry \<Rightarrow> monthData list \<Rightarrow> monthData list" where
  "monthlyBreakdown_entry newDate year entry breakdown =
    (let entryDate = newDate (date entry @ ''T00:00:00Z'');
         entryYear = getUTCFullYear entryDate;
         entryStartMonth = getUTCMonth entryDate
     in if truthy (isRecurring entry) then
          (if js_lt entryYear (Num year) then
             fold (\<lambda>m b. add_to_bucket b m (categoryId entry) (amount entry)) [0..<12] breakdown
           else if js_eq entryYear (Num year) then
             (case entryStartMonth of
                NaN \<Rightarrow> breakdown
              | Num s \<Rightarrow>
                  fold (\<lambda>m b. add_to_bucket b m (categoryId entry) (amount entry)) [s..<12] breakdown)
           else breakdown)
        else
          (if js_eq entryYear (Num year) then
             (case entryStartMonth of
                NaN \<Rightarrow> breakdown
              | Num s \<Rightarrow>
                  if s < length breakdown
                  then add_to_bucket breakdown s (categoryId entry) (amount entry)
                  else breakdown)
           else breakdown))"

definition monthlyBreakdown ::
  "(string \<Rightarrow> jsdate) \<Rightarrow> BudgetCategory list \<Rightarrow> BudgetEntry list \<Rightarrow> int \<Rightarrow> monthData list" where
  "monthlyBreakdown newDate categories budgetEntries year =
     fold (monthlyBreakdown_entry newDate year) budgetEntries (replicate 12 (zeroed categories))"

subsection \<open>entriesForPeriod\<close>

text \<open>
  The selected period is \<open>'year'\<close> or a month index; the buttons of the period
  navigation give the indices 0 to 11.
\<close>

datatype period = Year | Month nat

definition entriesForPeriod ::
  "(string \<Rightarrow> jsdate) \<Rightarrow> BudgetEntry list \<Rightarrow> int \<Rightarrow> period \<Rightarrow> BudgetEntry list" where
  "entriesForPeriod newDate budgetEntries year selectedPeriod =
     filter (\<lambda>entry.
       let entryDate = newDate (date entry @ ''T00:00:00Z'');
           entryYear = getUTCFullYear entryDate;
           entryMonth = getUTCMonth entryDate
       in case selectedPeriod of
            Year \<Rightarrow>
              if truthy (isRecurring entry) then js_le entryYear (Num year)
              else js_eq entryYear (Num year)
          | Month M \<Rightarrow>
              if truthy (isRecurring entry)
              then js_lt entryYear (Num year) \<or> (js_eq entryYear (Num year) \<and> js_le entryMonth (Num M))
              else js_eq entryYear (Num year) \<and> js_eq entryMonth (Num M))
       budgetEntries"

subsection \<open>totalSpent and totalBudget\<close>

text \<open>\<open>Object.values(month).reduce((acc, v) => acc + v, 0)\<close>.\<close>

definition sum_values :: "monthData \<Rightarrow> rat number" where
  "sum_values month = fold (\<lambda>v acc. js_add acc v) (obj_values month) (Num 0)"

text \<open>\<open>Object.values(undefined)\<close> raises a \<open>TypeError\<close>.\<close>

definition totalSpent :: "monthData list \<Rightarrow> period \<Rightarrow> error + rat number" where
  "totalSpent breakdown selectedPeriod =
     (case selectedPeriod of
        Year \<Rightarrow> Inr (fold (\<lambda>month total. js_add total (sum_values month)) breakdown (Num 0))
      | Month M \<Rightarrow>
          if M < length breakdown then Inr (sum_values (breakdown ! M))
          else Inl TypeError)"

definition totalBudget :: "BudgetCategory list \<Rightarrow> period \<Rightarrow> rat" where
  "totalBudget categories selectedPeriod =
     (let monthlyBudget = fold (\<lambda>cat sum. sum + budget cat) categories 0
      in case selectedPeriod of Year \<Rightarrow> monthlyBudget * 12 | Month M \<Rightarrow> monthlyBudget)"

subsection \<open>categoryProgressData\<close>

text \<open>
  The objects \<open>{ ...cat, spent, budget, rollover }\<close>: the fields of the category, with
  \<open>budget\<close> overwritten, and the two new fields.
\<close>

record CategoryProgress = BudgetCategory +
  spent :: "rat number"
  rollover :: "rat number"

definition progress_of :: "BudgetCategory \<Rightarrow> rat number \<Rightarrow> rat \<Rightarrow> rat number \<Rightarrow> CategoryProgress" where
  "progress_of cat s b r =
     \<lparr>id_cat = id_cat cat, name_cat = name_cat cat, description = description cat,
      budget = b, color = color cat, spent = s, rollover = r\<rparr>"

text \<open>
  \<open>monthlyBreakdown[month][key]\<close>: a \<open>TypeError\<close> when the array has no such bucket,
  \<open>undefined\<close> when the bucket has no such key.
\<close>

definition bucket_read :: "monthData list \<Rightarrow> nat \<Rightarrow> string \<Rightarrow> error + rat number option" where
  "bucket_read breakdown month k =
     (if month < length breakdown then Inr (obj_get (breakdown ! month) k)
      else Inl TypeError)"

text \<open>The body of the inner \<open>categories.forEach\<close> of the rollover loop.\<close>

definition rollover_step ::
  "monthData list \<Rightarrow> nat \<Rightarrow> BudgetCategory \<Rightarrow> monthData \<Rightarrow> error + monthData" where
  "rollover_step breakdown month cat rollovers =
     (case bucket_read breakdown month (id_cat cat) of
        Inl e \<Rightarrow> Inl e
      | Inr spentThisMonth \<Rightarrow>
          let effectiveSpending =
                js_add (to_number spentThisMonth) (to_number (obj_get rollovers (id_cat cat)));
              deficit = js_sub effectiveSpending (Num (budget cat))
          in Inr (obj_set rollovers (id_cat cat)
                    (if js_gt deficit (Num 0) then deficit else Num 0)))"

text \<open>
  \<open>rollovers\<close> after the loop \<open>for (let month = 0; month < selectedPeriod; month++)\<close>,
  started from the object that holds 0 for every category.
\<close>

definition rollovers_before :: "BudgetCategory list \<Rightarrow> monthData list \<Rightarrow> nat \<Rightarrow> error + monthData" where
  "rollovers_before categories breakdown selectedPeriod =
     forEach_result
       (\<lambda>month rollovers. forEach_result (rollover_step breakdown month) categories rollovers)
       [0..<selectedPeriod] (zeroed categories)"

definition categoryProgressData ::
  "BudgetCategory list \<Rightarrow> monthData list \<Rightarrow> period \<Rightarrow> error + CategoryProgress list" where
  "categoryProgressData categories breakdown selectedPeriod =
     (case selectedPeriod of
        Year \<Rightarrow>
          Inr (map (\<lambda>cat. progress_of cat
                     (fold (\<lambda>month sum. js_add sum (to_number (obj_get month (id_cat cat))))
                        breakdown (Num 0))
                     (budget cat * 12)
                     (Num 0))
                 categories)
      | Month M \<Rightarrow>
          (case rollovers_before categories breakdown M of
             Inl e \<Rightarrow> Inl e
           | Inr rollovers \<Rightarrow>
               map_result (\<lambda>cat.
                 case bucket_read breakdown M (id_cat cat) of
                   Inl e \<Rightarrow> Inl e
                 | Inr spentInSelectedMonth \<Rightarrow>
                     let rolloverAmount = js_or_zero (obj_get rollovers (id_cat cat));
                         effectiveSpending = js_add (to_number spentInSelectedMonth) rolloverAmount
                     in Inr (progress_of cat effectiveSpending (budget cat) rolloverAmount))
                 categories))"

subsection \<open>CategoryProgressList\<close>

text \<open>\<open>cat.budget > 0 ? (cat.spent / cat.budget) * 100 : 0\<close>.\<close>

definition progress_percentage :: "CategoryProgress \<Rightarrow> error + rat number" where
  "progress_percentage cat =
     (if budget cat > 0 then
        (case js_div (spent cat) (Num (budget cat)) of
           Inl e \<Rightarrow> Inl e
         | Inr q \<Rightarrow> Inr (js_mul q (Num 100)))
      else Inr (Num 0))"

subsection \<open>categorySpendingDataForChart\<close>

record slice =
  id_slice :: string
  name_slice :: string
  value_slice :: "rat number"
  percentage :: "rat number"
  color_slice :: string

text \<open>
  The yearly sum per key: every category is preset to 0, then every key of every bucket
  is added, \<open>yearlyCategorySpending[categoryId] += month[categoryId]\<close>.
\<close>

definition yearlyCategorySpending :: "BudgetCategory list \<Rightarrow> monthData list \<Rightarrow> monthData" where
  "yearlyCategorySpending categories breakdown =
     fold (\<lambda>month yearly.
             fold (\<lambda>categoryId y.
                     obj_set y categoryId
                       (js_add (to_number (obj_get y categoryId))
                               (to_number (obj_get month categoryId))))
               (obj_keys month) yearly)
       breakdown (zeroed categories)"

text \<open>
  The slice list. \<open>yearlyCategorySpending[cat.id]\<close> is read for the categories that
  were preset, so the read is never \<open>undefined\<close>.
\<close>

definition categorySpendingDataForChart ::
  "BudgetCategory list \<Rightarrow> monthData list \<Rightarrow> error + slice list" where
  "categorySpendingDataForChart categories breakdown =
     (let yearly = yearlyCategorySpending categories breakdown;
          totalSpent = sum_values yearly
      in if js_eq totalSpent (Num 0) then Inr []
         else
           (case map_result (\<lambda>cat.
                   case js_div (to_number (obj_get yearly (id_cat cat))) totalSpent of
                     Inl e \<Rightarrow> Inl e
                   | Inr q \<Rightarrow>
                       Inr \<lparr>id_slice = id_cat cat, name_slice = name_cat cat,
                            value_slice = to_number (obj_get yearly (id_cat cat)),
                            percentage = js_mul q (Num 100),
                            color_slice = color cat\<rparr>)
                   categories of
              Inl e \<Rightarrow> Inl e
            | Inr ds \<Rightarrow> Inr (filter (\<lambda>d. js_gt (value_slice d) (Num 0)) ds)))"

section \<open>WishlistView.tsx: budgetOverview\<close>

text \<open>
  The body of \<open>budgetEntries.forEach\<close>, on the pair of the two running totals
  \<open>(totalYearlySpent, totalMonthlySpent)\<close>. \<open>now\<close> is \<open>new Date()\<close>.
\<close>

definition budgetOverview_entry ::
  "(string \<Rightarrow> jsdate) \<Rightarrow> jsdate \<Rightarrow> BudgetEntry \<Rightarrow> rat number \<times> rat number \<Rightarrow> rat number \<times> rat number" where
  "budgetOverview_entry newDate now entry totals =
    (let currentYear = getUTCFullYear now;
         currentMonth = getUTCMonth now;
         totalYearlySpent = fst totals;
         totalMonthlySpent = snd totals;
         entryDate = newDate (date entry @ ''T00:00:00Z'');
         entryYear = getUTCFullYear entryDate;
         entryMonth = getUTCMonth entryDate
     in if truthy (isRecurring entry) then
          (if js_lt entryYear currentYear then
             (js_add totalYearlySpent (js_mul (Num (amount entry)) (Num 12)),
              js_add totalMonthlySpent (Num (amount entry)))
           else if js_eq entryYear currentYear then
             (let monthsAppliedInYear = js_sub (Num 12) (map_number rat_of_nat entryMonth)
              in (js_add totalYearlySpent (js_mul (Num (amount entry)) monthsAppliedInYear),
                  if js_le entryMonth currentMonth
                  then js_add totalMonthlySpent (Num (amount entry))
                  else totalMonthlySpent))
           else totals)
        else
          (if js_eq entryYear currentYear then
             (js_add totalYearlySpent (Num (amount entry)),
              if js_eq entryMonth currentMonth
              then js_add totalMonthlySpent (Num (amount entry))
              else totalMonthlySpent)
           else totals))"

definition budgetOverview_totals ::
  "(string \<Rightarrow> jsdate) \<Rightarrow> jsdate \<Rightarrow> BudgetEntry list \<Rightarrow> rat number \<times> rat number" where
  "budgetOverview_totals newDate now budgetEntries =
     fold (budgetOverview_entry newDate now) budgetEntries (Num 0, Num 0)"

record overview =
  remainingYearly :: "rat number"
  remainingMonthly :: "rat number"

definition budgetOverview :: "(string \<Rightarrow> jsdate) \<Rightarrow> jsdate \<Rightarrow> BudgetEntry list \<Rightarrow> overview" where
  "budgetOverview newDate now budgetEntries =
    (let totalMonthlyBudget = fold (\<lambda>cat sum. sum + budget cat) initialCategories 0;
         totalYearlyBudget = totalMonthlyBudget * 12;
         totals = budgetOverview_totals newDate now budgetEntries
     in \<lparr>remainingYearly = js_sub (Num totalYearlyBudget) (fst totals),
         remainingMonthly = js_sub (Num totalMonthlyBudget) (snd totals)\<rparr>)"

section \<open>Home dashboard: BudgetSnapshotCard\<close>



section \<open>The vocabulary of the specification\<close>

text \<open>
  The specification speaks of recurring and one-time entries and of the year \<open>EY\<close> and
  month \<open>EM\<close> of an entry's UTC date. These definitions follow its words; the theorems
  compare the code with them.
\<close>

definition recurring :: "BudgetEntry \<Rightarrow> bool" where
  "recurring e = (isRecurring e = Some True)"

definition calendar_date :: "(string \<Rightarrow> jsdate) \<Rightarrow> BudgetEntry \<Rightarrow> (int \<times> nat) option" where
  "calendar_date newDate e =
     (case newDate (date e @ ''T00:00:00Z'') of
        InvalidDate \<Rightarrow> None
      | UTCDate EY EM \<Rightarrow> Some (EY, month_index EM))"

text \<open>A one-time entry of year \<open>Y\<close> and month \<open>m\<close>.\<close>

definition one_time_in :: "(string \<Rightarrow> jsdate) \<Rightarrow> int \<Rightarrow> nat \<Rightarrow> BudgetEntry \<Rightarrow> bool" where
  "one_time_in newDate Y m e =
     (\<not> recurring e \<and>
      (case calendar_date newDate e of None \<Rightarrow> False | Some (EY, EM) \<Rightarrow> EY = Y \<and> EM = m))"

text \<open>A recurring entry that started in a year before \<open>Y\<close>.\<close>

definition recurring_before :: "(string \<Rightarrow> jsdate) \<Rightarrow> int \<Rightarrow> BudgetEntry \<Rightarrow> bool" where
  "recurring_before newDate Y e =
     (recurring e \<and>
      (case calendar_date newDate e of None \<Rightarrow> False | Some (EY, EM) \<Rightarrow> EY < Y))"

text \<open>A recurring entry that started in year \<open>Y\<close>, in month \<open>m\<close> or earlier.\<close>

definition recurring_from :: "(string \<Rightarrow> jsdate) \<Rightarrow> int \<Rightarrow> nat \<Rightarrow> BudgetEntry \<Rightarrow> bool" where
  "recurring_from newDate Y m e =
     (recurring e \<and>
      (case calendar_date newDate e of None \<Rightarrow> False | Some (EY, EM) \<Rightarrow> EY = Y \<and> EM \<le> m))"

definition counts_in :: "(string \<Rightarrow> jsdate) \<Rightarrow> int \<Rightarrow> nat \<Rightarrow> BudgetEntry \<Rightarrow> bool" where
  "counts_in newDate Y m e =
     (one_time_in newDate Y m e \<or> recurring_before newDate Y e \<or> recurring_from newDate Y m e)"

text \<open>
  A monthly breakdown holds a number for every category in each of its twelve buckets;
  \<open>bucket_value breakdown m k\<close> is that number for month \<open>m\<close> and category id \<open>k\<close>.
\<close>

fun num_value :: "rat number option \<Rightarrow> rat" where
  "num_value (Some (Num r)) = r"
| "num_value _ = 0"

definition bucket_value :: "monthData list \<Rightarrow> nat \<Rightarrow> string \<Rightarrow> rat" where
  "bucket_value breakdown m k = num_value (obj_get (breakdown ! m) k)"

fun is_number :: "rat number option \<Rightarrow> bool" where
  "is_number (Some (Num r)) = True"
| "is_number _ = False"

definition numeric_breakdown :: "BudgetCategory list \<Rightarrow> monthData list \<Rightarrow> bool" where
  "numeric_breakdown categories breakdown =
     (length breakdown = 12 \<and>
      list_all (\<lambda>month. list_all (\<lambda>cat. is_number (obj_get month (id_cat cat))) categories)
        breakdown)"

text \<open>
  The rollover entering a month, in the specification's words: 0 entering month 0, and
  after each month the positive part of that month's spend plus the rollover carried in,
  minus the budget.
\<close>

fun rollover_into :: "monthData list \<Rightarrow> BudgetCategory \<Rightarrow> nat \<Rightarrow> rat" where
  "rollover_into breakdown cat 0 = 0"
| "rollover_into breakdown cat (Suc month) =
     max (bucket_value breakdown month (id_cat cat) + rollover_into breakdown cat month
            - budget cat) 0"

text \<open>The yearly total of a category: the sum of its values over the twelve buckets.\<close>

definition yearly_total :: "monthData list \<Rightarrow> string \<Rightarrow> rat" where
  "yearly_total breakdown k = (\<Sum>m\<leftarrow>[0..<12]. bucket_value breakdown m k)"

text \<open>Every key of \<open>K\<close> holds a number that is not negative.\<close>

definition nonneg_on :: "string set \<Rightarrow> monthData \<Rightarrow> bool" where
  "nonneg_on K r = (\<forall>k\<in>K. \<exists>q. obj_get r k = Some (Num q) \<and> 0 \<le> q)"

text \<open>
  The breakdowns the pie chart is specified for: a number that is not negative for
  every category in each of the twelve buckets, and no key but the category ids (the
  keys of an object are distinct).
\<close>

definition spending_breakdown :: "BudgetCategory list \<Rightarrow> monthData list \<Rightarrow> bool" where
  "spending_breakdown categories breakdown =
     (numeric_breakdown categories breakdown \<and>
      list_all (\<lambda>month.
          distinct (obj_keys month) \<and>
          list_all (\<lambda>k. k \<in> id_cat ` set categories) (obj_keys month) \<and>
          list_all (\<lambda>cat. 0 \<le> num_value (obj_get month (id_cat cat))) categories)
        breakdown)"

text \<open>
  The total spend of the year, the slice the specification describes for a category,
  and the sum of the percentage fields of a slice list.
\<close>

definition total_of_year :: "BudgetCategory list \<Rightarrow> monthData list \<Rightarrow> rat" where
  "total_of_year categories breakdown = (\<Sum>cat\<leftarrow>categories. yearly_total breakdown (id_cat cat))"

definition slice_of :: "BudgetCategory list \<Rightarrow> monthData list \<Rightarrow> BudgetCategory \<Rightarrow> slice" where
  "slice_of categories breakdown cat =
     \<lparr>id_slice = id_cat cat, name_slice = name_cat cat,
      value_slice = Num (yearly_total breakdown (id_cat cat)),
      percentage = Num (yearly_total breakdown (id_cat cat) / total_of_year categories breakdown * 100),
      color_slice = color cat\<rparr>"

definition sum_percentages :: "slice list \<Rightarrow> rat number" where
  "sum_percentages slices = fold (\<lambda>d acc. js_add acc (percentage d)) slices (Num 0)"

text \<open>Every bucket has exactly the keys \<open>K\<close>.\<close>

definition keys_are :: "string set \<Rightarrow> monthData list \<Rightarrow> bool" where
  "keys_are K b = (\<forall>month\<in>set b. distinct (obj_keys month) \<and> set (obj_keys month) = K)"




subsection \<open>Sample data\<close>

text \<open>
  Two categories, a parser that knows three date strings, and the entries of the
  specification's examples: a recurring entry of 100 from May 2023, a one-time entry of
  50 in January 2022, one-time entries of 150 and 50 in January 2023, and an entry whose
  date does not parse.
\<close>

definition sample_categories :: "BudgetCategory list" where
  "sample_categories =
    [\<lparr>id_cat = ''travel'', name_cat = ''Travel'', description = ''Trips'', budget = 100, color = ''#3498db''\<rparr>,
     \<lparr>id_cat = ''misc'', name_cat = ''Miscellaneous'', description = ''Other'', budget = 50, color = ''#95a5a6''\<rparr>]"

definition sample_newDate :: "string \<Rightarrow> jsdate" where
  "sample_newDate s =
     (if s = ''2023-05-10T00:00:00Z'' then UTCDate 2023 May
      else if s = ''2022-01-01T00:00:00Z'' then UTCDate 2022 January
      else if s = ''2023-01-15T00:00:00Z'' then UTCDate 2023 January
      else InvalidDate)"

definition railpass :: BudgetEntry where
  "railpass = \<lparr>id_entry = ''budget-1'', name_entry = ''Rail pass'', date = ''2023-05-10'', amount = 100,
           categoryId = ''travel'', isRecurring = Some True, linkedEventId = None,
           notes_entry = None\<rparr>"

definition gift :: BudgetEntry where
  "gift = \<lparr>id_entry = ''budget-2'', name_entry = ''Gift'', date = ''2022-01-01'', amount = 50,
           categoryId = ''misc'', isRecurring = Some False, linkedEventId = None,
           notes_entry = None\<rparr>"

definition flight :: BudgetEntry where
  "flight = \<lparr>id_entry = ''budget-3'', name_entry = ''Flight'', date = ''2023-01-15'', amount = 150,
             categoryId = ''travel'', isRecurring = None, linkedEventId = None,
             notes_entry = None\<rparr>"

definition books :: BudgetEntry where
  "books = \<lparr>id_entry = ''budget-5'', name_entry = ''Books'', date = ''2023-01-15'', amount = 50,
            categoryId = ''misc'', isRecurring = Some False, linkedEventId = None,
            notes_entry = None\<rparr>"

definition undated :: BudgetEntry where
  "undated = \<lparr>id_entry = ''budget-4'', name_entry = ''Undated'', date = ''soon'', amount = 7,
              categoryId = ''travel'', isRecurring = Some True, linkedEventId = None,
              notes_entry = None\<rparr>"

definition sample_entries :: "BudgetEntry list" where
  "sample_entries = [railpass, gift, flight, books, undated]"

definition sample_breakdown :: "monthData list" where
  "sample_breakdown = monthlyBreakdown sample_newDate sample_categories sample_entries 2023"

definition zero_budget_progress :: CategoryProgress where
  "zero_budget_progress =
     \<lparr>id_cat = ''free'', name_cat = ''Free'', description = ''No budget'', budget = 0,
      color = ''#000000'', spent = Num 5, rollover = Num 0\<rparr>"

section \<open>Objects, buckets and the breakdown\<close>

text \<open>The category list of the application has distinct identifiers.\<close>

lemma initialCategories_distinct: "distinct (map id_cat initialCategories)"
  by (simp add: initialCategories_def)

lemma obj_get_set: "obj_get (obj_set ob k v) k' = (if k' = k then Some v else obj_get ob k')"
  by (simp add: obj_get_def obj_set_def update_conv')

lemma obj_get_fold_zero:
  "obj_get (fold (\<lambda>c monthData. obj_set monthData (id_cat c) (Num 0)) cats ob) k =
     (if k \<in> id_cat ` set cats then Some (Num 0) else obj_get ob k)"
  by (induction cats arbitrary: ob) (auto simp: obj_get_set)

lemma obj_get_zeroed:
  "obj_get (zeroed cats) k = (if k \<in> id_cat ` set cats then Some (Num 0) else None)"
  by (simp add: zeroed_def obj_get_fold_zero) (simp add: obj_get_def)

lemma length_add_to_bucket: "length (add_to_bucket b m k a) = length b"
  by (simp add: add_to_bucket_def)

lemma length_fold_add_to_bucket:
  "length (fold (\<lambda>m b. add_to_bucket b m k a) ms b) = length b"
  by (induction ms arbitrary: b) (simp_all add: length_add_to_bucket)

lemma length_monthlyBreakdown_entry:
  "length (monthlyBreakdown_entry newDate year entry b) = length b"
  by (simp add: monthlyBreakdown_entry_def Let_def length_fold_add_to_bucket
        length_add_to_bucket split: number.split)

lemma length_fold_entries:
  "length (fold (monthlyBreakdown_entry newDate year) es b) = length b"
  by (induction es arbitrary: b) (simp_all add: length_monthlyBreakdown_entry)

lemma length_monthlyBreakdown: "length (monthlyBreakdown newDate cats es year) = 12"
  by (simp add: monthlyBreakdown_def length_fold_entries)

lemma get_add_to_bucket:
  "m' < length b \<Longrightarrow>
   obj_get (add_to_bucket b m k a ! m') k' =
     (if m' = m \<and> k' = k then Some (js_add (to_number (obj_get (b ! m) k)) (Num a))
      else obj_get (b ! m') k')"
  by (cases "m' = m") (simp_all add: add_to_bucket_def obj_get_set)

lemma get_fold_add_to_bucket:
  "m' < length b \<Longrightarrow> distinct ms \<Longrightarrow>
   obj_get (fold (\<lambda>m b. add_to_bucket b m k a) ms b ! m') k' =
     (if m' \<in> set ms \<and> k' = k then Some (js_add (to_number (obj_get (b ! m') k)) (Num a))
      else obj_get (b ! m') k')"
proof (induction ms arbitrary: b)
  case Nil
  then show ?case by simp
next
  case (Cons x xs)
  have len: "m' < length (add_to_bucket b x k a)"
    using Cons.prems by (simp add: length_add_to_bucket)
  show ?case
    using Cons.prems Cons.IH [OF len] by (auto simp: get_add_to_bucket)
qed

lemma truthy_recurring: "truthy (isRecurring e) = recurring e"
  by (cases "isRecurring e") (auto simp: recurring_def)

lemma month_index_less: "month_index mo < 12"
  by (cases mo) simp_all

lemma get_monthlyBreakdown_entry:
  assumes "length b = 12" and "m < 12"
  shows "obj_get (monthlyBreakdown_entry newDate Y e b ! m) c =
     (if categoryId e = c \<and> counts_in newDate Y m e
      then Some (js_add (to_number (obj_get (b ! m) c)) (Num (amount e)))
      else obj_get (b ! m) c)"
proof (cases "newDate (date e @ ''T00:00:00Z'')")
  case InvalidDate
  then show ?thesis
    by (simp add: monthlyBreakdown_entry_def counts_in_def one_time_in_def recurring_before_def
          recurring_from_def calendar_date_def)
next
  case (UTCDate EY EM)
  have m: "m < length b" using assms by simp
  show ?thesis
  proof (cases "recurring e")
    case True
    then show ?thesis
      using UTCDate m month_index_less [of EM] assms
      by (auto simp: monthlyBreakdown_entry_def counts_in_def one_time_in_def recurring_before_def
            recurring_from_def calendar_date_def truthy_recurring get_fold_add_to_bucket)
  next
    case False
    then show ?thesis
      using UTCDate m month_index_less [of EM] assms
      by (auto simp: monthlyBreakdown_entry_def counts_in_def one_time_in_def recurring_before_def
            recurring_from_def calendar_date_def truthy_recurring get_add_to_bucket)
  qed
qed

lemma get_fold_entries:
  assumes "length b = 12" and "m < 12" and "obj_get (b ! m) c = Some (Num r)"
  shows "obj_get (fold (monthlyBreakdown_entry newDate Y) es b ! m) c =
     Some (Num (r + sum_list (map (\<lambda>e. if categoryId e = c \<and> counts_in newDate Y m e
                                          then amount e else 0) es)))"
  using assms
proof (induction es arbitrary: b r)
  case Nil
  then show ?case by simp
next
  case (Cons e es)
  let ?b = "monthlyBreakdown_entry newDate Y e b"
  let ?d = "if categoryId e = c \<and> counts_in newDate Y m e then amount e else 0"
  have len: "length ?b = 12"
    using Cons.prems by (simp add: length_monthlyBreakdown_entry)
  have get: "obj_get (?b ! m) c = Some (Num (r + ?d))"
    using Cons.prems by (simp add: get_monthlyBreakdown_entry)
  show ?case
    using Cons.IH [OF len Cons.prems(2) get] by (simp add: add.assoc)
qed

lemma sum_list_if_three:
  fixes f :: "'a \<Rightarrow> rat"
  assumes "\<And>x. \<not> (P x \<and> Q x)" and "\<And>x. \<not> (P x \<and> R x)" and "\<And>x. \<not> (Q x \<and> R x)"
  shows "sum_list (map (\<lambda>x. if S x \<and> (P x \<or> Q x \<or> R x) then f x else 0) xs) =
         sum_list (map f (filter (\<lambda>x. S x \<and> P x) xs))
       + sum_list (map f (filter (\<lambda>x. S x \<and> Q x) xs))
       + sum_list (map f (filter (\<lambda>x. S x \<and> R x) xs))"
  using assms by (induction xs) auto

lemma monthlyBreakdown_get:
  assumes "m < 12" and "c \<in> id_cat ` set categories"
  shows "obj_get (monthlyBreakdown newDate categories es Y ! m) c =
     Some (Num (sum_list (map (\<lambda>e. if categoryId e = c \<and> counts_in newDate Y m e
                                      then amount e else 0) es)))"
proof -
  have "obj_get (replicate 12 (zeroed categories) ! m) c = Some (Num 0)"
    using assms by (simp add: obj_get_zeroed)
  then show ?thesis
    using assms(1) get_fold_entries [of "replicate 12 (zeroed categories)" m c 0 newDate Y es]
    by (simp add: monthlyBreakdown_def)
qed

section \<open>Numeric breakdowns and the rollover loop\<close>

lemma is_number_value: "is_number x \<Longrightarrow> x = Some (Num (num_value x))"
  by (cases x rule: is_number.cases) simp_all

lemma numeric_breakdown_get:
  assumes "numeric_breakdown categories breakdown" and "m < 12" and "cat \<in> set categories"
  shows "obj_get (breakdown ! m) (id_cat cat) = Some (Num (bucket_value breakdown m (id_cat cat)))"
proof -
  have "breakdown ! m \<in> set breakdown"
    using assms by (simp add: numeric_breakdown_def)
  then have "is_number (obj_get (breakdown ! m) (id_cat cat))"
    using assms by (auto simp: numeric_breakdown_def list_all_iff)
  then show ?thesis
    unfolding bucket_value_def by (rule is_number_value)
qed

lemma fold_add_month_values:
  assumes "\<forall>month\<in>set months. is_number (obj_get month k)"
  shows "fold (\<lambda>month sum. js_add sum (to_number (obj_get month k))) months (Num r) =
         Num (r + (\<Sum>month\<leftarrow>months. num_value (obj_get month k)))"
  using assms
proof (induction months arbitrary: r)
  case Nil
  then show ?case by simp
next
  case (Cons month months)
  then have "obj_get month k = Some (Num (num_value (obj_get month k)))"
    by (simp add: is_number_value)
  then have "js_add (Num r) (to_number (obj_get month k)) = Num (r + num_value (obj_get month k))"
    by (metis js_add.simps(1) to_number.simps(2))
  then show ?case
    using Cons by (simp add: add.assoc)
qed

lemma sum_list_buckets:
  assumes "length breakdown = 12"
  shows "(\<Sum>month\<leftarrow>breakdown. num_value (obj_get month k)) = yearly_total breakdown k"
proof -
  have "map (\<lambda>m. bucket_value breakdown m k) [0..<length breakdown] =
        map (\<lambda>month. num_value (obj_get month k)) (map ((!) breakdown) [0..<length breakdown])"
    by (simp add: bucket_value_def)
  also have "\<dots> = map (\<lambda>month. num_value (obj_get month k)) breakdown"
    by (simp only: map_nth)
  finally show ?thesis
    using assms by (simp add: yearly_total_def)
qed

lemma year_spent:
  assumes "numeric_breakdown categories breakdown" and "cat \<in> set categories"
  shows "fold (\<lambda>month sum. js_add sum (to_number (obj_get month (id_cat cat)))) breakdown (Num 0) =
         Num (yearly_total breakdown (id_cat cat))"
proof -
  have "\<forall>month\<in>set breakdown. is_number (obj_get month (id_cat cat))"
    using assms by (auto simp: numeric_breakdown_def list_all_iff)
  then show ?thesis
    using assms(1) by (simp add: fold_add_month_values sum_list_buckets numeric_breakdown_def)
qed

lemma numeric_monthlyBreakdown:
  "numeric_breakdown categories (monthlyBreakdown newDate categories es Y)"
proof -
  let ?b = "monthlyBreakdown newDate categories es Y"
  have "is_number (obj_get month (id_cat cat))" if "month \<in> set ?b" and "cat \<in> set categories"
    for month cat
  proof -
    from that(1) obtain m where "m < length ?b" and "month = ?b ! m"
      unfolding in_set_conv_nth by blast
    then have "m < 12" and "month = ?b ! m"
      by (simp_all add: length_monthlyBreakdown)
    then show ?thesis
      using that(2) by (simp add: monthlyBreakdown_get)
  qed
  then show ?thesis
    by (simp add: numeric_breakdown_def length_monthlyBreakdown list_all_iff)
qed

lemma bucket_value_monthlyBreakdown:
  assumes "m < 12" and "k \<in> id_cat ` set categories"
  shows "bucket_value (monthlyBreakdown newDate categories es Y) m k =
         (\<Sum>e\<leftarrow>es. if categoryId e = k \<and> counts_in newDate Y m e then amount e else 0)"
  using assms by (simp add: bucket_value_def monthlyBreakdown_get)

lemma forEach_rollover_step:
  assumes "distinct (map id_cat cs)" and "month < length breakdown"
    and "\<forall>cat\<in>set cs. is_number (obj_get (breakdown ! month) (id_cat cat))"
    and "\<forall>cat\<in>set cs. obj_get r (id_cat cat) = Some (Num (f cat))"
  shows "\<exists>r'. forEach_result (rollover_step breakdown month) cs r = Inr r' \<and>
           (\<forall>cat\<in>set cs. obj_get r' (id_cat cat) =
              Some (Num (max (bucket_value breakdown month (id_cat cat) + f cat - budget cat) 0))) \<and>
           (\<forall>k. k \<notin> id_cat ` set cs \<longrightarrow> obj_get r' k = obj_get r k)"
  using assms
proof (induction cs arbitrary: r)
  case Nil
  then show ?case by simp
next
  case (Cons c cs)
  let ?v = "max (bucket_value breakdown month (id_cat c) + f c - budget c) 0"
  let ?r = "obj_set r (id_cat c) (Num ?v)"
  have spent: "obj_get (breakdown ! month) (id_cat c) =
               Some (Num (bucket_value breakdown month (id_cat c)))"
    using Cons.prems(3) by (simp add: bucket_value_def is_number_value)
  have carried: "obj_get r (id_cat c) = Some (Num (f c))"
    using Cons.prems(4) by simp
  have step: "rollover_step breakdown month c r = Inr ?r"
    using Cons.prems(2) by (simp add: rollover_step_def bucket_read_def spent carried max_def)
  have fresh: "id_cat c \<notin> id_cat ` set cs" and dist: "distinct (map id_cat cs)"
    using Cons.prems(1) by simp_all
  have nums: "\<forall>cat\<in>set cs. is_number (obj_get (breakdown ! month) (id_cat cat))"
    using Cons.prems(3) by simp
  have rest: "\<forall>cat\<in>set cs. obj_get ?r (id_cat cat) = Some (Num (f cat))"
  proof
    fix cat assume cat: "cat \<in> set cs"
    then have "id_cat cat \<noteq> id_cat c"
      using fresh by (metis imageI)
    then show "obj_get ?r (id_cat cat) = Some (Num (f cat))"
      using Cons.prems(4) cat by (simp add: obj_get_set)
  qed
  from Cons.IH [OF dist Cons.prems(2) nums rest]
  obtain r' where r': "forEach_result (rollover_step breakdown month) cs ?r = Inr r'"
    and new: "\<forall>cat\<in>set cs. obj_get r' (id_cat cat) =
              Some (Num (max (bucket_value breakdown month (id_cat cat) + f cat - budget cat) 0))"
    and old: "\<forall>k. k \<notin> id_cat ` set cs \<longrightarrow> obj_get r' k = obj_get ?r k"
    by blast
  have run: "forEach_result (rollover_step breakdown month) (c # cs) r = Inr r'"
    by (simp add: step r')
  have here: "obj_get r' (id_cat c) = Some (Num ?v)"
    using old fresh by (simp add: obj_get_set)
  have others: "\<forall>k. k \<notin> id_cat ` set (c # cs) \<longrightarrow> obj_get r' k = obj_get r k"
    using old by (simp add: obj_get_set)
  have all: "\<forall>cat\<in>set (c # cs). obj_get r' (id_cat cat) =
              Some (Num (max (bucket_value breakdown month (id_cat cat) + f cat - budget cat) 0))"
    using here new by simp
  show ?case
    using run all others by blast
qed

lemma rollovers_before_values:
  assumes "distinct (map id_cat categories)" and "numeric_breakdown categories breakdown"
    and "M \<le> 12"
  shows "\<exists>r. rollovers_before categories breakdown M = Inr r \<and>
           (\<forall>cat\<in>set categories. obj_get r (id_cat cat) =
              Some (Num (rollover_into breakdown cat M)))"
proof -
  have loop: "\<exists>r'. forEach_result
             (\<lambda>month rollovers. forEach_result (rollover_step breakdown month) categories rollovers)
             [n..<n + d] r = Inr r' \<and>
           (\<forall>cat\<in>set categories. obj_get r' (id_cat cat) =
              Some (Num (rollover_into breakdown cat (n + d))))"
    if "n + d \<le> 12"
      and "\<forall>cat\<in>set categories. obj_get r (id_cat cat) = Some (Num (rollover_into breakdown cat n))"
    for n d r
    using that
  proof (induction d arbitrary: n r)
    case 0
    then show ?case by simp
  next
    case (Suc d)
    have n: "n < length breakdown"
      using Suc.prems(1) assms(2) by (simp add: numeric_breakdown_def)
    have nums: "\<forall>cat\<in>set categories. is_number (obj_get (breakdown ! n) (id_cat cat))"
      using assms(2) n by (auto simp: numeric_breakdown_def list_all_iff)
    obtain r1 where r1: "forEach_result (rollover_step breakdown n) categories r = Inr r1"
      and v1: "\<forall>cat\<in>set categories. obj_get r1 (id_cat cat) =
                 Some (Num (rollover_into breakdown cat (Suc n)))"
      using forEach_rollover_step [OF assms(1) n nums Suc.prems(2)] by auto
    have "[n..<n + Suc d] = n # [Suc n..<Suc n + d]"
      using upt_conv_Cons [of n "n + Suc d"] by simp
    then show ?case
      using Suc.IH [of "Suc n" r1] Suc.prems(1) r1 v1 by simp
  qed
  have "\<forall>cat\<in>set categories. obj_get (zeroed categories) (id_cat cat) =
          Some (Num (rollover_into breakdown cat 0))"
    by (simp add: obj_get_zeroed)
  then show ?thesis
    using loop [of 0 M "zeroed categories"] assms(3) by (simp add: rollovers_before_def)
qed

lemma rollover_into_nonneg: "0 \<le> rollover_into breakdown cat M"
  by (cases M) simp_all

lemma map_result_Inr:
  assumes "\<forall>x\<in>set xs. f x = Inr (g x)"
  shows "map_result f xs = Inr (map g xs)"
  using assms by (induction xs) simp_all

section \<open>The yearly sums of the chart\<close>

lemma js_div_nonzero:
  "\<not> js_eq t (Num 0) \<Longrightarrow> \<exists>q. js_div x t = Inr q"
  by (cases t; cases x) auto

lemma map_result_total:
  assumes "\<forall>x\<in>set xs. \<exists>y. f x = Inr y"
  shows "\<exists>ys. map_result f xs = Inr ys"
  using assms
proof (induction xs)
  case Nil
  then show ?case by simp
next
  case (Cons x xs)
  then obtain y ys where "f x = Inr y" and "map_result f xs = Inr ys"
    by auto
  then show ?case by simp
qed

lemma chart_returns:
  "\<exists>slices. categorySpendingDataForChart categories breakdown = Inr slices"
proof (cases "js_eq (sum_values (yearlyCategorySpending categories breakdown)) (Num 0)")
  case True
  then show ?thesis
    by (simp add: categorySpendingDataForChart_def)
next
  case False
  let ?yearly = "yearlyCategorySpending categories breakdown"
  let ?f = "\<lambda>cat.
                   case js_div (to_number (obj_get ?yearly (id_cat cat))) (sum_values ?yearly) of
                     Inl e \<Rightarrow> Inl e
                   | Inr q \<Rightarrow>
                       Inr \<lparr>id_slice = id_cat cat, name_slice = name_cat cat,
                            value_slice = to_number (obj_get ?yearly (id_cat cat)),
                            percentage = js_mul q (Num 100),
                            color_slice = color cat\<rparr>"
  have "\<exists>d. ?f cat = Inr d" for cat
  proof -
    obtain q where "js_div (to_number (obj_get ?yearly (id_cat cat))) (sum_values ?yearly) = Inr q"
      using js_div_nonzero [OF False] by blast
    then show ?thesis by simp
  qed
  then have "\<forall>cat\<in>set categories. \<exists>d. ?f cat = Inr d"
    by (rule ballI)
  then have "\<exists>ds. map_result ?f categories = Inr ds"
    by (rule map_result_total)
  then obtain ds where ds: "map_result ?f categories = Inr ds" ..
  have "categorySpendingDataForChart categories breakdown =
          (case map_result ?f categories of
             Inl e \<Rightarrow> Inl e
           | Inr ds \<Rightarrow> Inr (filter (\<lambda>d. js_gt (value_slice d) (Num 0)) ds))"
    using False by (simp add: categorySpendingDataForChart_def Let_def)
  then show ?thesis
    by (simp add: ds)
qed

lemma obj_keys_set_present:
  "k \<in> set (obj_keys ob) \<Longrightarrow> obj_keys (obj_set ob k v) = obj_keys ob"
  by (simp add: obj_keys_def obj_set_def update_keys)

lemma obj_keys_zeroed_fold:
  "distinct (obj_keys ob @ map id_cat cats) \<Longrightarrow>
   obj_keys (fold (\<lambda>c monthData. obj_set monthData (id_cat c) (Num 0)) cats ob) =
     obj_keys ob @ map id_cat cats"
proof (induction cats arbitrary: ob)
  case Nil
  then show ?case by simp
next
  case (Cons c cs)
  have "obj_keys (obj_set ob (id_cat c) (Num 0)) = obj_keys ob @ [id_cat c]"
    using Cons.prems by (simp add: obj_keys_def obj_set_def update_keys)
  then show ?case
    using Cons.prems Cons.IH [of "obj_set ob (id_cat c) (Num 0)"] by simp
qed

lemma obj_keys_zeroed:
  "distinct (map id_cat cats) \<Longrightarrow> obj_keys (zeroed cats) = map id_cat cats"
  using obj_keys_zeroed_fold [of "[]" cats] by (simp add: zeroed_def obj_keys_def)

lemma obj_values_by_keys:
  "distinct (obj_keys ob) \<Longrightarrow> obj_values ob = map (\<lambda>k. the (obj_get ob k)) (obj_keys ob)"
proof (induction ob)
  case Nil
  then show ?case by (simp add: obj_values_def obj_keys_def)
next
  case (Cons kv ob)
  obtain k v where kv: "kv = (k, v)" by (cases kv)
  have "map (\<lambda>k'. the (obj_get ((k, v) # ob) k')) (obj_keys ob) =
        map (\<lambda>k'. the (obj_get ob k')) (obj_keys ob)"
    using Cons.prems kv by (auto simp: obj_get_def obj_keys_def)
  then show ?case
    using Cons kv by (simp add: obj_values_def obj_keys_def obj_get_def)
qed

lemma add_keys_get:
  "distinct ks \<Longrightarrow>
   obj_get (fold (\<lambda>categoryId y.
                    obj_set y categoryId
                      (js_add (to_number (obj_get y categoryId))
                              (to_number (obj_get month categoryId)))) ks y) k =
     (if k \<in> set ks
      then Some (js_add (to_number (obj_get y k)) (to_number (obj_get month k)))
      else obj_get y k)"
proof (induction ks arbitrary: y)
  case Nil
  then show ?case by simp
next
  case (Cons a ks)
  then show ?case
    by (simp add: obj_get_set)
qed

lemma add_keys_keys:
  "set ks \<subseteq> set (obj_keys y) \<Longrightarrow>
   obj_keys (fold (\<lambda>categoryId y.
                    obj_set y categoryId
                      (js_add (to_number (obj_get y categoryId))
                              (to_number (obj_get month categoryId)))) ks y) = obj_keys y"
proof (induction ks arbitrary: y)
  case Nil
  then show ?case by simp
next
  case (Cons a ks)
  then show ?case
    by (simp add: obj_keys_set_present)
qed

lemma is_number_key: "is_number (obj_get month k) \<Longrightarrow> k \<in> set (obj_keys month)"
proof -
  assume "is_number (obj_get month k)"
  then obtain v where "map_of month k = Some v"
    by (cases "obj_get month k") (simp_all add: obj_get_def)
  then have "(k, v) \<in> set month"
    by (rule map_of_SomeD)
  then have "fst (k, v) \<in> fst ` set month"
    by (rule imageI)
  then show ?thesis
    by (simp add: obj_keys_def)
qed

lemma yearly_fold:
  assumes "\<forall>month\<in>set months.
             distinct (obj_keys month) \<and> set (obj_keys month) \<subseteq> set (obj_keys y) \<and>
             (\<forall>cat\<in>set cats. is_number (obj_get month (id_cat cat)))"
    and "\<forall>cat\<in>set cats. obj_get y (id_cat cat) = Some (Num (Yv (id_cat cat)))"
  shows "obj_keys (fold (\<lambda>month yearly.
             fold (\<lambda>categoryId y.
                     obj_set y categoryId
                       (js_add (to_number (obj_get y categoryId))
                               (to_number (obj_get month categoryId))))
               (obj_keys month) yearly) months y) = obj_keys y \<and>
         (\<forall>cat\<in>set cats.
            obj_get (fold (\<lambda>month yearly.
             fold (\<lambda>categoryId y.
                     obj_set y categoryId
                       (js_add (to_number (obj_get y categoryId))
                               (to_number (obj_get month categoryId))))
               (obj_keys month) yearly) months y) (id_cat cat) =
            Some (Num (Yv (id_cat cat)
                       + (\<Sum>month\<leftarrow>months. num_value (obj_get month (id_cat cat))))))"
  using assms
proof (induction months arbitrary: y Yv)
  case Nil
  then show ?case by simp
next
  case (Cons month months)
  let ?step = "\<lambda>month yearly.
             fold (\<lambda>categoryId y.
                     obj_set y categoryId
                       (js_add (to_number (obj_get y categoryId))
                               (to_number (obj_get month categoryId))))
               (obj_keys month) yearly"
  let ?y1 = "?step month y"
  let ?Y1 = "\<lambda>k. Yv k + num_value (obj_get month k)"
  have dist: "distinct (obj_keys month)" and sub: "set (obj_keys month) \<subseteq> set (obj_keys y)"
    and nums: "\<forall>cat\<in>set cats. is_number (obj_get month (id_cat cat))"
    using Cons.prems(1) by simp_all
  have keys1: "obj_keys ?y1 = obj_keys y"
    using sub by (rule add_keys_keys)
  have vals1: "\<forall>cat\<in>set cats. obj_get ?y1 (id_cat cat) = Some (Num (?Y1 (id_cat cat)))"
  proof
    fix cat assume cat: "cat \<in> set cats"
    then have n: "is_number (obj_get month (id_cat cat))"
      using nums by simp
    then have "id_cat cat \<in> set (obj_keys month)"
      by (rule is_number_key)
    then have "obj_get ?y1 (id_cat cat) =
        Some (js_add (to_number (obj_get y (id_cat cat))) (to_number (obj_get month (id_cat cat))))"
      using dist by (simp add: add_keys_get)
    moreover have "obj_get month (id_cat cat) = Some (Num (num_value (obj_get month (id_cat cat))))"
      using n by (rule is_number_value)
    moreover have "obj_get y (id_cat cat) = Some (Num (Yv (id_cat cat)))"
      using Cons.prems(2) cat by simp
    ultimately show "obj_get ?y1 (id_cat cat) = Some (Num (?Y1 (id_cat cat)))"
      by (metis js_add.simps(1) to_number.simps(2))
  qed
  have rest: "\<forall>month\<in>set months.
             distinct (obj_keys month) \<and> set (obj_keys month) \<subseteq> set (obj_keys ?y1) \<and>
             (\<forall>cat\<in>set cats. is_number (obj_get month (id_cat cat)))"
    using Cons.prems(1) keys1 by simp
  have "fold ?step (month # months) y = fold ?step months ?y1"
    by simp
  then show ?case
    using Cons.IH [OF rest vals1] keys1 by (simp add: add.assoc)
qed

lemma spending_breakdownD:
  assumes "spending_breakdown categories breakdown" and "month \<in> set breakdown"
  shows "distinct (obj_keys month)" and "set (obj_keys month) \<subseteq> id_cat ` set categories"
    and "\<forall>cat\<in>set categories. is_number (obj_get month (id_cat cat))"
    and "\<forall>cat\<in>set categories. 0 \<le> num_value (obj_get month (id_cat cat))"
  using assms by (auto simp: spending_breakdown_def numeric_breakdown_def list_all_iff)

lemma yearlyCategorySpending_values:
  assumes "distinct (map id_cat categories)" and "spending_breakdown categories breakdown"
  shows "obj_keys (yearlyCategorySpending categories breakdown) = map id_cat categories"
    and "\<forall>cat\<in>set categories.
           obj_get (yearlyCategorySpending categories breakdown) (id_cat cat) =
             Some (Num (yearly_total breakdown (id_cat cat)))"
proof -
  have keys0: "obj_keys (zeroed categories) = map id_cat categories"
    using assms(1) by (rule obj_keys_zeroed)
  have months: "\<forall>month\<in>set breakdown.
             distinct (obj_keys month) \<and> set (obj_keys month) \<subseteq> set (obj_keys (zeroed categories)) \<and>
             (\<forall>cat\<in>set categories. is_number (obj_get month (id_cat cat)))"
    using spending_breakdownD [OF assms(2)] by (simp add: keys0)
  have zero: "\<forall>cat\<in>set categories.
                obj_get (zeroed categories) (id_cat cat) = Some (Num ((\<lambda>k. 0) (id_cat cat)))"
    by (simp add: obj_get_zeroed)
  have len: "length breakdown = 12"
    using assms(2) by (simp add: spending_breakdown_def numeric_breakdown_def)
  note fold = yearly_fold [OF months zero]
  show "obj_keys (yearlyCategorySpending categories breakdown) = map id_cat categories"
    using fold keys0 by (simp add: yearlyCategorySpending_def)
  show "\<forall>cat\<in>set categories.
           obj_get (yearlyCategorySpending categories breakdown) (id_cat cat) =
             Some (Num (yearly_total breakdown (id_cat cat)))"
    using fold by (simp add: yearlyCategorySpending_def sum_list_buckets [OF len])
qed

lemma fold_add_nums:
  "fold (\<lambda>v acc. js_add acc v) (map (\<lambda>x. Num (g x)) xs) (Num r) = Num (r + (\<Sum>x\<leftarrow>xs. g x))"
  by (induction xs arbitrary: r) (simp_all add: add.assoc)

lemma sum_values_yearly:
  assumes "distinct (map id_cat categories)" and "spending_breakdown categories breakdown"
  shows "sum_values (yearlyCategorySpending categories breakdown) =
         Num (total_of_year categories breakdown)"
proof -
  let ?yearly = "yearlyCategorySpending categories breakdown"
  have keys: "obj_keys ?yearly = map id_cat categories"
    and vals: "\<forall>cat\<in>set categories.
                 obj_get ?yearly (id_cat cat) = Some (Num (yearly_total breakdown (id_cat cat)))"
    using yearlyCategorySpending_values [OF assms] by simp_all
  have "distinct (obj_keys ?yearly)"
    using keys assms(1) by simp
  then have "obj_values ?yearly = map (\<lambda>k. the (obj_get ?yearly k)) (obj_keys ?yearly)"
    by (rule obj_values_by_keys)
  also have "\<dots> = map (\<lambda>cat. Num (yearly_total breakdown (id_cat cat))) categories"
    using vals by (simp add: keys)
  finally show ?thesis
    by (simp add: sum_values_def fold_add_nums total_of_year_def)
qed

lemma yearly_total_nonneg:
  assumes "spending_breakdown categories breakdown" and "cat \<in> set categories"
  shows "0 \<le> yearly_total breakdown (id_cat cat)"
proof -
  have len: "length breakdown = 12"
    using assms(1) by (simp add: spending_breakdown_def numeric_breakdown_def)
  have "\<forall>month\<in>set breakdown. 0 \<le> num_value (obj_get month (id_cat cat))"
    using spending_breakdownD(4) [OF assms(1)] assms(2) by blast
  then have "0 \<le> (\<Sum>month\<leftarrow>breakdown. num_value (obj_get month (id_cat cat)))"
    by (intro sum_list_nonneg) auto
  then show ?thesis
    by (simp add: sum_list_buckets [OF len])
qed

lemma yearly_total_zero:
  assumes "spending_breakdown categories breakdown" and "total_of_year categories breakdown = 0"
    and "cat \<in> set categories"
  shows "yearly_total breakdown (id_cat cat) = 0"
proof -
  let ?xs = "map (\<lambda>cat. yearly_total breakdown (id_cat cat)) categories"
  have "\<And>x. x \<in> set ?xs \<Longrightarrow> 0 \<le> x"
    using yearly_total_nonneg [OF assms(1)] by auto
  then have "sum_list ?xs = 0 \<longleftrightarrow> (\<forall>x\<in>set ?xs. x = 0)"
    by (rule sum_list_nonneg_eq_0_iff)
  then have "\<forall>x\<in>set ?xs. x = 0"
    using assms(2) by (simp add: total_of_year_def)
  then show ?thesis
    using assms(3) by simp
qed

lemma chart_slices:
  assumes "distinct (map id_cat categories)" and "spending_breakdown categories breakdown"
  shows "categorySpendingDataForChart categories breakdown =
     Inr (map (slice_of categories breakdown)
            (filter (\<lambda>cat. yearly_total breakdown (id_cat cat) \<noteq> 0) categories))"
proof (cases "total_of_year categories breakdown = 0")
  case True
  then have "filter (\<lambda>cat. yearly_total breakdown (id_cat cat) \<noteq> 0) categories = []"
    using yearly_total_zero [OF assms(2)] by (simp add: filter_empty_conv)
  then show ?thesis
    using True by (simp add: categorySpendingDataForChart_def sum_values_yearly [OF assms])
next
  case False
  let ?yearly = "yearlyCategorySpending categories breakdown"
  let ?f = "\<lambda>cat.
                   case js_div (to_number (obj_get ?yearly (id_cat cat))) (sum_values ?yearly) of
                     Inl e \<Rightarrow> Inl e
                   | Inr q \<Rightarrow>
                       Inr \<lparr>id_slice = id_cat cat, name_slice = name_cat cat,
                            value_slice = to_number (obj_get ?yearly (id_cat cat)),
                            percentage = js_mul q (Num 100),
                            color_slice = color cat\<rparr>"
  have "?f cat = Inr (slice_of categories breakdown cat)" if "cat \<in> set categories" for cat
    using that False yearlyCategorySpending_values(2) [OF assms]
    by (simp add: sum_values_yearly [OF assms] slice_of_def)
  then have "\<forall>cat\<in>set categories. ?f cat = Inr (slice_of categories breakdown cat)"
    by (rule ballI)
  then have all: "map_result ?f categories = Inr (map (slice_of categories breakdown) categories)"
    by (rule map_result_Inr)
  have "categorySpendingDataForChart categories breakdown =
          (case map_result ?f categories of
             Inl e \<Rightarrow> Inl e
           | Inr ds \<Rightarrow> Inr (filter (\<lambda>d. js_gt (value_slice d) (Num 0)) ds))"
    using False by (simp add: categorySpendingDataForChart_def Let_def sum_values_yearly [OF assms])
  also have "\<dots> = Inr (filter (\<lambda>d. js_gt (value_slice d) (Num 0))
                       (map (slice_of categories breakdown) categories))"
    by (simp add: all)
  also have "filter (\<lambda>d. js_gt (value_slice d) (Num 0))
                       (map (slice_of categories breakdown) categories) =
             map (slice_of categories breakdown)
               (filter (\<lambda>cat. 0 < yearly_total breakdown (id_cat cat)) categories)"
    by (simp add: filter_map comp_def slice_of_def)
  also have "filter (\<lambda>cat. 0 < yearly_total breakdown (id_cat cat)) categories =
             filter (\<lambda>cat. yearly_total breakdown (id_cat cat) \<noteq> 0) categories"
    using yearly_total_nonneg [OF assms(2)] by (intro filter_cong) (auto simp: less_le)
  finally show ?thesis .
qed

lemma distinct_obj_set: "distinct (obj_keys ob) \<Longrightarrow> distinct (obj_keys (obj_set ob k v))"
  by (simp add: obj_keys_def obj_set_def distinct_update)

lemma set_obj_keys_set: "set (obj_keys (obj_set ob k v)) = insert k (set (obj_keys ob))"
  using dom_update [of k v ob] by (simp add: obj_keys_def obj_set_def)

lemma keys_zeroed_fold:
  "distinct (obj_keys ob) \<Longrightarrow>
   distinct (obj_keys (fold (\<lambda>c monthData. obj_set monthData (id_cat c) (Num 0)) cats ob)) \<and>
   set (obj_keys (fold (\<lambda>c monthData. obj_set monthData (id_cat c) (Num 0)) cats ob)) =
     set (obj_keys ob) \<union> id_cat ` set cats"
proof (induction cats arbitrary: ob)
  case Nil
  then show ?case by simp
next
  case (Cons c cs)
  have "distinct (obj_keys (obj_set ob (id_cat c) (Num 0)))"
    using Cons.prems by (rule distinct_obj_set)
  from Cons.IH [OF this] show ?case
    by (simp add: set_obj_keys_set)
qed

lemma keys_are_replicate_zeroed: "keys_are (id_cat ` set cats) (replicate n (zeroed cats))"
  using keys_zeroed_fold [of "[]" cats] by (auto simp: keys_are_def zeroed_def obj_keys_def)

lemma keys_are_add_to_bucket:
  assumes "keys_are K b" and "k \<in> K"
  shows "keys_are K (add_to_bucket b m k a)"
proof (cases "m < length b")
  case True
  let ?new = "obj_set (b ! m) k (js_add (to_number (obj_get (b ! m) k)) (Num a))"
  have old: "distinct (obj_keys (b ! m))" "set (obj_keys (b ! m)) = K"
    using assms(1) True by (simp_all add: keys_are_def)
  have new: "distinct (obj_keys ?new) \<and> set (obj_keys ?new) = K"
    using old assms(2) by (simp add: distinct_obj_set set_obj_keys_set insert_absorb)
  have "set (b[m := ?new]) \<subseteq> insert ?new (set b)"
    by (rule set_update_subset_insert)
  then show ?thesis
    using assms(1) new unfolding keys_are_def add_to_bucket_def by blast
next
  case False
  then have "length b \<le> m"
    by simp
  then show ?thesis
    using assms(1) by (simp add: add_to_bucket_def list_update_beyond)
qed

lemma keys_are_fold_add:
  assumes "keys_are K b" and "k \<in> K"
  shows "keys_are K (fold (\<lambda>m b. add_to_bucket b m k a) ms b)"
  using assms(1) by (induction ms arbitrary: b) (simp_all add: keys_are_add_to_bucket assms(2))

lemma keys_are_entry:
  assumes "keys_are K b" and "categoryId e \<in> K"
  shows "keys_are K (monthlyBreakdown_entry newDate Y e b)"
  using assms
  by (simp add: monthlyBreakdown_entry_def Let_def keys_are_fold_add keys_are_add_to_bucket
        split: number.split)

lemma keys_are_fold_entries:
  assumes "keys_are K b" and "\<forall>e\<in>set es. categoryId e \<in> K"
  shows "keys_are K (fold (monthlyBreakdown_entry newDate Y) es b)"
  using assms by (induction es arbitrary: b) (simp_all add: keys_are_entry)

lemma keys_are_monthlyBreakdown:
  assumes "\<forall>e\<in>set es. categoryId e \<in> id_cat ` set categories"
  shows "keys_are (id_cat ` set categories) (monthlyBreakdown newDate categories es Y)"
  unfolding monthlyBreakdown_def
  using keys_are_replicate_zeroed assms by (rule keys_are_fold_entries)

lemma spending_monthlyBreakdown:
  assumes "\<forall>e\<in>set es. categoryId e \<in> id_cat ` set categories \<and> 0 \<le> amount e"
  shows "spending_breakdown categories (monthlyBreakdown newDate categories es Y)"
proof -
  let ?b = "monthlyBreakdown newDate categories es Y"
  have keys: "keys_are (id_cat ` set categories) ?b"
    using assms by (intro keys_are_monthlyBreakdown) blast
  have nonneg: "0 \<le> num_value (obj_get month (id_cat cat))"
    if "month \<in> set ?b" and "cat \<in> set categories" for month cat
  proof -
    from that(1) obtain m where "m < length ?b" and "month = ?b ! m"
      unfolding in_set_conv_nth by blast
    then have m: "m < 12" and month: "month = ?b ! m"
      by (simp_all add: length_monthlyBreakdown)
    have "0 \<le> (\<Sum>e\<leftarrow>es. if categoryId e = id_cat cat \<and> counts_in newDate Y m e
                           then amount e else 0)"
      using assms by (intro sum_list_nonneg) auto
    then show ?thesis
      using m that(2) bucket_value_monthlyBreakdown [of m "id_cat cat" categories newDate es Y]
      by (simp add: month bucket_value_def)
  qed
  show ?thesis
    using keys nonneg numeric_monthlyBreakdown [of categories newDate es Y]
    by (simp add: spending_breakdown_def keys_are_def list_all_iff)
qed

lemma sample_spending: "spending_breakdown sample_categories sample_breakdown"
  unfolding sample_breakdown_def
  by (rule spending_monthlyBreakdown)
     (simp add: sample_entries_def sample_categories_def railpass_def gift_def flight_def books_def undated_def)

lemma sample_distinct: "distinct (map id_cat sample_categories)"
  by (simp add: sample_categories_def)

lemma fold_percentages:
  "fold (\<lambda>d acc. js_add acc (percentage d)) (map (\<lambda>x. s x) xs) acc =
   fold (\<lambda>v acc. js_add acc v) (map (\<lambda>x. percentage (s x)) xs) acc"
  by (induction xs arbitrary: acc) simp_all

section \<open>The totals of the wishlist view and of the dashboard\<close>























section \<open>The monthly breakdown\<close>

text \<open>
  C1. For every entry list and target year \<open>Y\<close>, bucket \<open>m\<close> (0..11) of the monthly
  breakdown holds for a category \<open>c\<close> of the category list exactly: the sum of the amounts
  of the one-time entries of category \<open>c\<close> dated in year \<open>Y\<close> and month \<open>m\<close>, plus
  the amounts of the recurring entries of category \<open>c\<close> dated in a year before \<open>Y\<close>,
  plus the amounts of the recurring entries of category \<open>c\<close> dated in year \<open>Y\<close> and a
  month \<open>EM \<le> m\<close>. Entries of later years, and one-time entries of other years,
  contribute to no bucket.
\<close>

theorem monthlyBreakdown_bucket:
  assumes "m < 12" and "c \<in> id_cat ` set categories"
  shows "obj_get (monthlyBreakdown newDate categories budgetEntries Y ! m) c =
     Some (Num (
         sum_list (map amount
           (filter (\<lambda>e. categoryId e = c \<and> one_time_in newDate Y m e) budgetEntries))
       + sum_list (map amount
           (filter (\<lambda>e. categoryId e = c \<and> recurring_before newDate Y e) budgetEntries))
       + sum_list (map amount
           (filter (\<lambda>e. categoryId e = c \<and> recurring_from newDate Y m e) budgetEntries))))"
proof -
  have "sum_list (map (\<lambda>e. if categoryId e = c \<and> counts_in newDate Y m e then amount e else 0)
          budgetEntries) =
         sum_list (map amount
           (filter (\<lambda>e. categoryId e = c \<and> one_time_in newDate Y m e) budgetEntries))
       + sum_list (map amount
           (filter (\<lambda>e. categoryId e = c \<and> recurring_before newDate Y e) budgetEntries))
       + sum_list (map amount
           (filter (\<lambda>e. categoryId e = c \<and> recurring_from newDate Y m e) budgetEntries))"
    unfolding counts_in_def
    by (rule sum_list_if_three)
       (auto simp: one_time_in_def recurring_before_def recurring_from_def split: option.splits)
  then show ?thesis
    using monthlyBreakdown_get [OF assms, of newDate budgetEntries Y] by simp
qed

theorem monthlyBreakdown_bucket_witness:
  "(4::nat) < 12 \<and> ''travel'' \<in> id_cat ` set sample_categories \<and>
   obj_get (monthlyBreakdown sample_newDate sample_categories sample_entries 2023 ! 4) ''travel''
     = Some (Num 100) \<and>
   obj_get (monthlyBreakdown sample_newDate sample_categories sample_entries 2023 ! 0) ''travel''
     = Some (Num 150) \<and>
   obj_get (monthlyBreakdown sample_newDate sample_categories sample_entries 2024 ! 0) ''travel''
     = Some (Num 100)"
  using monthlyBreakdown_bucket [of 4 "''travel''" sample_categories sample_newDate sample_entries 2023]
    monthlyBreakdown_bucket [of 0 "''travel''" sample_categories sample_newDate sample_entries 2023]
    monthlyBreakdown_bucket [of 0 "''travel''" sample_categories sample_newDate sample_entries 2024]
  by (simp add: sample_categories_def sample_entries_def sample_newDate_def railpass_def gift_def
        flight_def books_def undated_def one_time_in_def recurring_before_def recurring_from_def
        recurring_def calendar_date_def)

section \<open>Category progress of a month\<close>

text \<open>
  C2. For every monthly breakdown (twelve buckets holding a number for every category),
  every category list with distinct identifiers and every selected month \<open>M\<close> (0..11):
  the loop over the months \<open>0..M-1\<close> leaves in \<open>rollovers\<close>, for each category, the
  value obtained by starting from 0 and replacing it each month by
  \<open>max (breakdown[month][cat] + rollover - budget) 0\<close>; the progress list then reports
  for each category \<open>spent = breakdown[M][cat] + rollover\<close>, the nominal monthly budget,
  and \<open>rollover\<close> = the value entering month \<open>M\<close>.
\<close>

theorem month_view_progress:
  assumes "distinct (map id_cat categories)" and "numeric_breakdown categories breakdown"
    and "M < 12"
  shows "(\<exists>r. rollovers_before categories breakdown M = Inr r \<and>
              (\<forall>cat\<in>set categories.
                 obj_get r (id_cat cat) = Some (Num (rollover_into breakdown cat M)))) \<and>
         categoryProgressData categories breakdown (Month M) =
           Inr (map (\<lambda>cat. progress_of cat
                       (Num (bucket_value breakdown M (id_cat cat) + rollover_into breakdown cat M))
                       (budget cat)
                       (Num (rollover_into breakdown cat M)))
                  categories)"
proof -
  obtain r where r: "rollovers_before categories breakdown M = Inr r"
    and v: "\<forall>cat\<in>set categories. obj_get r (id_cat cat) = Some (Num (rollover_into breakdown cat M))"
    using rollovers_before_values [OF assms(1,2), of M] assms(3) by auto
  have len: "M < length breakdown"
    using assms(2,3) by (simp add: numeric_breakdown_def)
  let ?f = "\<lambda>cat.
                 case bucket_read breakdown M (id_cat cat) of
                   Inl e \<Rightarrow> Inl e
                 | Inr spentInSelectedMonth \<Rightarrow>
                     let rolloverAmount = js_or_zero (obj_get r (id_cat cat));
                         effectiveSpending = js_add (to_number spentInSelectedMonth) rolloverAmount
                     in Inr (progress_of cat effectiveSpending (budget cat) rolloverAmount)"
  let ?g = "\<lambda>cat. progress_of cat
                       (Num (bucket_value breakdown M (id_cat cat) + rollover_into breakdown cat M))
                       (budget cat)
                       (Num (rollover_into breakdown cat M))"
  have "?f cat = Inr (?g cat)" if "cat \<in> set categories" for cat
  proof -
    have 1: "bucket_read breakdown M (id_cat cat) =
             Inr (Some (Num (bucket_value breakdown M (id_cat cat))))"
      using len numeric_breakdown_get [OF assms(2,3) that] by (simp add: bucket_read_def)
    have 2: "js_or_zero (obj_get r (id_cat cat)) = Num (rollover_into breakdown cat M)"
      using v that by simp
    show ?thesis
      by (simp add: 1 2)
  qed
  then have "\<forall>cat\<in>set categories. ?f cat = Inr (?g cat)"
    by blast
  then have "map_result ?f categories = Inr (map ?g categories)"
    by (rule map_result_Inr)
  moreover have "categoryProgressData categories breakdown (Month M) = map_result ?f categories"
    by (simp add: categoryProgressData_def r)
  ultimately show ?thesis
    using r v by simp
qed

theorem month_view_progress_witness:
  "distinct (map id_cat sample_categories) \<and>
   numeric_breakdown sample_categories sample_breakdown \<and>
   categoryProgressData sample_categories sample_breakdown (Month 1) =
     Inr [\<lparr>id_cat = ''travel'', name_cat = ''Travel'', description = ''Trips'', budget = 100,
           color = ''#3498db'', spent = Num 50, rollover = Num 50\<rparr>,
          \<lparr>id_cat = ''misc'', name_cat = ''Miscellaneous'', description = ''Other'', budget = 50,
           color = ''#95a5a6'', spent = Num 0, rollover = Num 0\<rparr>] \<and>
   categoryProgressData sample_categories sample_breakdown (Month 2) =
     Inr [\<lparr>id_cat = ''travel'', name_cat = ''Travel'', description = ''Trips'', budget = 100,
           color = ''#3498db'', spent = Num 0, rollover = Num 0\<rparr>,
          \<lparr>id_cat = ''misc'', name_cat = ''Miscellaneous'', description = ''Other'', budget = 50,
           color = ''#95a5a6'', spent = Num 0, rollover = Num 0\<rparr>]"
proof -
  have dist: "distinct (map id_cat sample_categories)"
    by (simp add: sample_categories_def)
  have num: "numeric_breakdown sample_categories sample_breakdown"
    unfolding sample_breakdown_def by (rule numeric_monthlyBreakdown)
  have val1: "Inr (map (\<lambda>cat. progress_of cat
                       (Num (bucket_value sample_breakdown 1 (id_cat cat)
                             + rollover_into sample_breakdown cat 1))
                       (budget cat)
                       (Num (rollover_into sample_breakdown cat 1)))
                  sample_categories) =
     (Inr [\<lparr>id_cat = ''travel'', name_cat = ''Travel'', description = ''Trips'', budget = 100,
           color = ''#3498db'', spent = Num 50, rollover = Num 50\<rparr>,
          \<lparr>id_cat = ''misc'', name_cat = ''Miscellaneous'', description = ''Other'', budget = 50,
           color = ''#95a5a6'', spent = Num 0, rollover = Num 0\<rparr>] :: error + CategoryProgress list)"
    by code_simp
  have val2: "Inr (map (\<lambda>cat. progress_of cat
                       (Num (bucket_value sample_breakdown 2 (id_cat cat)
                             + rollover_into sample_breakdown cat 2))
                       (budget cat)
                       (Num (rollover_into sample_breakdown cat 2)))
                  sample_categories) =
     (Inr [\<lparr>id_cat = ''travel'', name_cat = ''Travel'', description = ''Trips'', budget = 100,
           color = ''#3498db'', spent = Num 0, rollover = Num 0\<rparr>,
          \<lparr>id_cat = ''misc'', name_cat = ''Miscellaneous'', description = ''Other'', budget = 50,
           color = ''#95a5a6'', spent = Num 0, rollover = Num 0\<rparr>] :: error + CategoryProgress list)"
    by code_simp
  show ?thesis
    using dist num val1 val2
      month_view_progress [OF dist num, of 1] month_view_progress [OF dist num, of 2]
    by simp
qed

section \<open>Category progress of the year\<close>

text \<open>
  C3. In the year view the progress list reports, for every monthly breakdown and every
  category, rollover 0 and twelve times the monthly budget; and for a breakdown that
  holds a number for every category in its twelve buckets, \<open>spent\<close> is the sum of the
  category's values over the twelve buckets.
\<close>

theorem year_view_progress:
  "(\<exists>ps. categoryProgressData categories breakdown Year = Inr ps \<and>
         map rollover ps = map (\<lambda>cat. Num 0) categories \<and>
         map budget ps = map (\<lambda>cat. budget cat * 12) categories) \<and>
   (numeric_breakdown categories breakdown \<longrightarrow>
      categoryProgressData categories breakdown Year =
        Inr (map (\<lambda>cat. progress_of cat (Num (yearly_total breakdown (id_cat cat)))
                          (budget cat * 12) (Num 0))
               categories))"
proof -
  have "categoryProgressData categories breakdown Year =
        Inr (map (\<lambda>cat. progress_of cat (Num (yearly_total breakdown (id_cat cat)))
                          (budget cat * 12) (Num 0))
               categories)"
    if "numeric_breakdown categories breakdown"
    using that by (simp add: categoryProgressData_def year_spent)
  moreover have "\<exists>ps. categoryProgressData categories breakdown Year = Inr ps \<and>
         map rollover ps = map (\<lambda>cat. Num 0) categories \<and>
         map budget ps = map (\<lambda>cat. budget cat * 12) categories"
    by (simp add: categoryProgressData_def progress_of_def comp_def)
  ultimately show ?thesis by blast
qed

theorem year_view_progress_witness:
  "numeric_breakdown sample_categories sample_breakdown \<and>
   categoryProgressData sample_categories sample_breakdown Year =
     Inr [\<lparr>id_cat = ''travel'', name_cat = ''Travel'', description = ''Trips'', budget = 1200,
           color = ''#3498db'', spent = Num 950, rollover = Num 0\<rparr>,
          \<lparr>id_cat = ''misc'', name_cat = ''Miscellaneous'', description = ''Other'', budget = 600,
           color = ''#95a5a6'', spent = Num 50, rollover = Num 0\<rparr>]"
proof -
  have num: "numeric_breakdown sample_categories sample_breakdown"
    unfolding sample_breakdown_def by (rule numeric_monthlyBreakdown)
  have val: "Inr (map (\<lambda>cat. progress_of cat (Num (yearly_total sample_breakdown (id_cat cat)))
                          (budget cat * 12) (Num 0))
               sample_categories) =
     (Inr [\<lparr>id_cat = ''travel'', name_cat = ''Travel'', description = ''Trips'', budget = 1200,
           color = ''#3498db'', spent = Num 950, rollover = Num 0\<rparr>,
          \<lparr>id_cat = ''misc'', name_cat = ''Miscellaneous'', description = ''Other'', budget = 600,
           color = ''#95a5a6'', spent = Num 50, rollover = Num 0\<rparr>] :: error + CategoryProgress list)"
    by code_simp
  show ?thesis
    using num val year_view_progress [of sample_categories sample_breakdown] by simp
qed

section \<open>The entry filter\<close>

text \<open>
  C4. For every entry list, year \<open>Y\<close> and selected period, the filtered display list
  keeps exactly the entries (in their order) whose date parses and that are: in the year
  view, one-time with date-year \<open>Y\<close>, or recurring with date-year at most \<open>Y\<close>; in
  the view of month \<open>M\<close>, one-time with date-year \<open>Y\<close> and date-month \<open>M\<close>, or
  recurring with date-year before \<open>Y\<close>, or with date-year \<open>Y\<close> and date-month at
  most \<open>M\<close>.
\<close>

theorem entriesForPeriod_selects:
  "entriesForPeriod newDate budgetEntries Y Year =
     filter (\<lambda>e. case calendar_date newDate e of
                    None \<Rightarrow> False
                  | Some (EY, EM) \<Rightarrow> if recurring e then EY \<le> Y else EY = Y)
       budgetEntries \<and>
   entriesForPeriod newDate budgetEntries Y (Month M) =
     filter (\<lambda>e. case calendar_date newDate e of
                    None \<Rightarrow> False
                  | Some (EY, EM) \<Rightarrow>
                      if recurring e then EY < Y \<or> (EY = Y \<and> EM \<le> M)
                      else EY = Y \<and> EM = M)
       budgetEntries"
proof -
  have "\<And>e. (let entryDate = newDate (date e @ ''T00:00:00Z'');
               entryYear = getUTCFullYear entryDate;
               entryMonth = getUTCMonth entryDate
           in if truthy (isRecurring e) then js_le entryYear (Num Y)
              else js_eq entryYear (Num Y)) =
          (case calendar_date newDate e of
             None \<Rightarrow> False
           | Some (EY, EM) \<Rightarrow> if recurring e then EY \<le> Y else EY = Y)"
    by (simp add: calendar_date_def truthy_recurring split: jsdate.split)
  moreover have "\<And>e. (let entryDate = newDate (date e @ ''T00:00:00Z'');
               entryYear = getUTCFullYear entryDate;
               entryMonth = getUTCMonth entryDate
           in if truthy (isRecurring e)
              then js_lt entryYear (Num Y) \<or> (js_eq entryYear (Num Y) \<and> js_le entryMonth (Num M))
              else js_eq entryYear (Num Y) \<and> js_eq entryMonth (Num M)) =
          (case calendar_date newDate e of
             None \<Rightarrow> False
           | Some (EY, EM) \<Rightarrow>
               if recurring e then EY < Y \<or> (EY = Y \<and> EM \<le> M) else EY = Y \<and> EM = M)"
    by (simp add: calendar_date_def truthy_recurring split: jsdate.split)
  ultimately show ?thesis
    by (simp add: entriesForPeriod_def)
qed

theorem entriesForPeriod_selects_witness:
  "entriesForPeriod sample_newDate sample_entries 2023 Year = [railpass, flight, books] \<and>
   entriesForPeriod sample_newDate sample_entries 2023 (Month 0) = [flight, books] \<and>
   entriesForPeriod sample_newDate sample_entries 2023 (Month 4) = [railpass] \<and>
   entriesForPeriod sample_newDate sample_entries 2024 (Month 0) = [railpass]"
  using entriesForPeriod_selects [of sample_newDate sample_entries 2023 0]
    entriesForPeriod_selects [of sample_newDate sample_entries 2023 4]
    entriesForPeriod_selects [of sample_newDate sample_entries 2024 0]
  by (simp add: sample_entries_def sample_newDate_def railpass_def gift_def flight_def books_def undated_def
        recurring_def calendar_date_def)

section \<open>The three views agree\<close>



section \<open>The pie-chart slices\<close>

text \<open>
  C6. For every monthly breakdown (numbers that are not negative, for a category list
  with distinct identifiers), the slice list holds, in the order of the categories,
  exactly one slice per category whose yearly total is nonzero: its value is the yearly
  total and its percentage is the value divided by the sum of all categories' yearly
  totals, times 100. A category with yearly total 0 has no slice, and the list is empty
  when the total spend is zero.
\<close>

theorem chart_slice_list:
  assumes "distinct (map id_cat categories)" and "spending_breakdown categories breakdown"
  shows "categorySpendingDataForChart categories breakdown =
           Inr (map (slice_of categories breakdown)
                  (filter (\<lambda>cat. yearly_total breakdown (id_cat cat) \<noteq> 0) categories)) \<and>
         (total_of_year categories breakdown = 0 \<longrightarrow>
            categorySpendingDataForChart categories breakdown = Inr [])"
proof -
  have "filter (\<lambda>cat. yearly_total breakdown (id_cat cat) \<noteq> 0) categories = []"
    if "total_of_year categories breakdown = 0"
    using yearly_total_zero [OF assms(2) that] by (simp add: filter_empty_conv)
  then show ?thesis
    using chart_slices [OF assms] by simp
qed

theorem chart_slice_list_witness:
  "distinct (map id_cat sample_categories) \<and>
   spending_breakdown sample_categories sample_breakdown \<and>
   categorySpendingDataForChart sample_categories sample_breakdown =
     Inr [\<lparr>id_slice = ''travel'', name_slice = ''Travel'', value_slice = Num 950,
           percentage = Num 95, color_slice = ''#3498db''\<rparr>,
          \<lparr>id_slice = ''misc'', name_slice = ''Miscellaneous'', value_slice = Num 50,
           percentage = Num 5, color_slice = ''#95a5a6''\<rparr>]"
proof -
  have val: "Inr (map (slice_of sample_categories sample_breakdown)
                  (filter (\<lambda>cat. yearly_total sample_breakdown (id_cat cat) \<noteq> 0)
                     sample_categories)) =
     (Inr [\<lparr>id_slice = ''travel'', name_slice = ''Travel'', value_slice = Num 950,
           percentage = Num 95, color_slice = ''#3498db''\<rparr>,
          \<lparr>id_slice = ''misc'', name_slice = ''Miscellaneous'', value_slice = Num 50,
           percentage = Num 5, color_slice = ''#95a5a6''\<rparr>] :: error + slice list)"
    by code_simp
  show ?thesis
    using sample_distinct sample_spending val
      chart_slice_list [OF sample_distinct sample_spending]
    by simp
qed

text \<open>
  C7. For every such monthly breakdown with nonzero total yearly spend, the slice list
  is returned and the percentage fields of its slices sum to exactly 100.
\<close>

theorem percentages_sum_to_100:
  assumes "distinct (map id_cat categories)" and "spending_breakdown categories breakdown"
    and "total_of_year categories breakdown \<noteq> 0"
  shows "\<exists>slices. categorySpendingDataForChart categories breakdown = Inr slices \<and>
                  sum_percentages slices = Num 100"
proof -
  let ?t = "total_of_year categories breakdown"
  let ?y = "\<lambda>cat. yearly_total breakdown (id_cat cat)"
  let ?kept = "filter (\<lambda>cat. ?y cat \<noteq> 0) categories"
  have "sum_percentages (map (slice_of categories breakdown) ?kept) =
        Num (\<Sum>cat\<leftarrow>?kept. ?y cat / ?t * 100)"
    by (simp add: sum_percentages_def fold_percentages slice_of_def fold_add_nums)
  also have "(\<Sum>cat\<leftarrow>?kept. ?y cat / ?t * 100) = (\<Sum>cat\<leftarrow>categories. ?y cat / ?t * 100)"
    by (rule sum_list_map_filter) simp
  also have "(\<Sum>cat\<leftarrow>categories. ?y cat / ?t * 100) = (\<Sum>cat\<leftarrow>categories. ?y cat * (100 / ?t))"
    by (simp add: field_simps)
  also have "\<dots> = (\<Sum>cat\<leftarrow>categories. ?y cat) * (100 / ?t)"
    by (rule sum_list_mult_const)
  also have "\<dots> = 100"
    using assms(3) by (simp add: total_of_year_def)
  finally have "sum_percentages (map (slice_of categories breakdown) ?kept) = Num 100" .
  then show ?thesis
    using chart_slices [OF assms(1,2)] by simp
qed

theorem percentages_sum_to_100_witness:
  "distinct (map id_cat sample_categories) \<and>
   spending_breakdown sample_categories sample_breakdown \<and>
   total_of_year sample_categories sample_breakdown = 1000 \<and>
   (\<exists>slices. categorySpendingDataForChart sample_categories sample_breakdown = Inr slices \<and>
             sum_percentages slices = Num 100)"
proof -
  have t: "total_of_year sample_categories sample_breakdown = 1000"
    by code_simp
  then have "total_of_year sample_categories sample_breakdown \<noteq> 0"
    by simp
  from percentages_sum_to_100 [OF sample_distinct sample_spending this]
  show ?thesis
    using sample_distinct sample_spending t by simp
qed

section \<open>Guarded divisions\<close>

text \<open>
  C8. No division by zero occurs in a progress ratio or in a pie-chart percentage, for
  every category progress, every category list and every breakdown: the progress ratio
  is always a value, and it is 0 when the budget is 0; the slice list is always
  returned, and it is empty (no percentage is computed) when the total spend is 0.
\<close>

theorem no_division_by_zero:
  "(\<exists>v. progress_percentage p = Inr v) \<and>
   (budget p = 0 \<longrightarrow> progress_percentage p = Inr (Num 0)) \<and>
   (\<exists>slices. categorySpendingDataForChart categories breakdown = Inr slices) \<and>
   (sum_values (yearlyCategorySpending categories breakdown) = Num 0 \<longrightarrow>
      categorySpendingDataForChart categories breakdown = Inr [])"
proof -
  have "\<exists>v. progress_percentage p = Inr v"
    by (cases "spent p") (simp_all add: progress_percentage_def)
  moreover have "budget p = 0 \<longrightarrow> progress_percentage p = Inr (Num 0)"
    by (simp add: progress_percentage_def)
  moreover have "sum_values (yearlyCategorySpending categories breakdown) = Num 0 \<longrightarrow>
      categorySpendingDataForChart categories breakdown = Inr []"
    by (simp add: categorySpendingDataForChart_def)
  ultimately show ?thesis
    using chart_returns by blast
qed

theorem no_division_by_zero_witness:
  "budget zero_budget_progress = 0 \<and>
   progress_percentage zero_budget_progress = Inr (Num 0) \<and>
   sum_values (yearlyCategorySpending sample_categories
     (monthlyBreakdown sample_newDate sample_categories sample_entries 2021)) = Num 0 \<and>
   categorySpendingDataForChart sample_categories
     (monthlyBreakdown sample_newDate sample_categories sample_entries 2021) = Inr []"
proof -
  have b: "budget zero_budget_progress = 0"
    by (simp add: zero_budget_progress_def)
  have t: "sum_values (yearlyCategorySpending sample_categories
     (monthlyBreakdown sample_newDate sample_categories sample_entries 2021)) = Num 0"
    by code_simp
  show ?thesis
    using b t no_division_by_zero [of zero_budget_progress sample_categories
        "monthlyBreakdown sample_newDate sample_categories sample_entries 2021"]
    by simp
qed

section \<open>The rollover is never negative\<close>

lemma nonneg_onD:
  "nonneg_on K r \<Longrightarrow> k \<in> K \<Longrightarrow> \<exists>q. obj_get r k = Some (Num q) \<and> 0 \<le> q"
  by (simp add: nonneg_on_def)

lemma positive_part_nonneg:
  "\<exists>q. (if js_gt d (Num 0) then d else Num (0::rat)) = Num q \<and> 0 \<le> q"
  by (cases d) auto

lemma rollover_step_nonneg:
  assumes "month < length breakdown" and "nonneg_on K r"
  shows "\<exists>r'. rollover_step breakdown month cat r = Inr r' \<and> nonneg_on K r'"
proof -
  let ?d = "js_sub (js_add (to_number (obj_get (breakdown ! month) (id_cat cat)))
                      (to_number (obj_get r (id_cat cat))))
              (Num (budget cat))"
  obtain q where q: "(if js_gt ?d (Num 0) then ?d else Num 0) = Num q" and "0 \<le> q"
    using positive_part_nonneg [of ?d] by blast
  then have "nonneg_on K (obj_set r (id_cat cat) (Num q))"
    using assms(2) by (simp add: nonneg_on_def obj_get_set)
  moreover have "rollover_step breakdown month cat r = Inr (obj_set r (id_cat cat) (Num q))"
    using assms(1) q by (simp add: rollover_step_def bucket_read_def Let_def)
  ultimately show ?thesis by blast
qed

lemma forEach_rollover_step_nonneg:
  assumes "month < length breakdown" and "nonneg_on K r"
  shows "\<exists>r'. forEach_result (rollover_step breakdown month) cs r = Inr r' \<and> nonneg_on K r'"
  using assms(2)
proof (induction cs arbitrary: r)
  case Nil
  then show ?case by simp
next
  case (Cons c cs)
  obtain r1 where r1: "rollover_step breakdown month c r = Inr r1" and "nonneg_on K r1"
    using rollover_step_nonneg [OF assms(1) Cons.prems] by blast
  then obtain r' where "forEach_result (rollover_step breakdown month) cs r1 = Inr r'"
    and "nonneg_on K r'"
    using Cons.IH by blast
  then show ?case
    using r1 by simp
qed

lemma months_loop_nonneg:
  assumes "n + d \<le> length breakdown" and "nonneg_on K r"
  shows "\<exists>r'. forEach_result
             (\<lambda>month rollovers. forEach_result (rollover_step breakdown month) categories rollovers)
             [n..<n + d] r = Inr r' \<and> nonneg_on K r'"
  using assms
proof (induction d arbitrary: n r)
  case 0
  then show ?case by simp
next
  case (Suc d)
  have "n < length breakdown"
    using Suc.prems(1) by simp
  then obtain r1 where r1: "forEach_result (rollover_step breakdown n) categories r = Inr r1"
    and n1: "nonneg_on K r1"
    using forEach_rollover_step_nonneg Suc.prems(2) by blast
  have "Suc n + d \<le> length breakdown"
    using Suc.prems(1) by simp
  then obtain r' where "forEach_result
             (\<lambda>month rollovers. forEach_result (rollover_step breakdown month) categories rollovers)
             [Suc n..<Suc n + d] r1 = Inr r'" and "nonneg_on K r'"
    using Suc.IH n1 by blast
  moreover have "[n..<n + Suc d] = n # [Suc n..<Suc n + d]"
    using upt_conv_Cons [of n "n + Suc d"] by simp
  ultimately show ?case
    using r1 by simp
qed

lemma nonneg_on_zeroed: "nonneg_on (id_cat ` set categories) (zeroed categories)"
  by (simp add: nonneg_on_def obj_get_zeroed)

lemma rollovers_before_nonneg:
  assumes "M \<le> length breakdown"
  shows "\<exists>r. rollovers_before categories breakdown M = Inr r \<and>
              nonneg_on (id_cat ` set categories) r"
  using months_loop_nonneg [of 0 M breakdown "id_cat ` set categories" "zeroed categories" categories]
    assms nonneg_on_zeroed [of categories]
  by (simp add: rollovers_before_def)

lemma map_result_all:
  assumes "\<forall>x\<in>set xs. \<exists>y. f x = Inr y \<and> P y"
  shows "\<exists>ys. map_result f xs = Inr ys \<and> length ys = length xs \<and> (\<forall>y\<in>set ys. P y)"
  using assms
proof (induction xs)
  case Nil
  then show ?case by simp
next
  case (Cons x xs)
  then obtain y ys where "f x = Inr y" "P y" "map_result f xs = Inr ys"
    "length ys = length xs" "\<forall>y\<in>set ys. P y"
    by auto
  then show ?case by simp
qed

lemma js_or_zero_nonneg:
  assumes "obj_get r k = Some (Num q)" and "0 \<le> q"
  shows "js_or_zero (obj_get r k) = Num q"
  using assms by simp

lemma reported_rollover_nonneg:
  assumes "M < length breakdown"
  shows "\<exists>ps. categoryProgressData categories breakdown (Month M) = Inr ps \<and>
              length ps = length categories \<and>
              (\<forall>p\<in>set ps. \<exists>q. rollover p = Num q \<and> 0 \<le> q)"
proof -
  obtain r where r: "rollovers_before categories breakdown M = Inr r"
    and nn: "nonneg_on (id_cat ` set categories) r"
    using rollovers_before_nonneg [of M breakdown categories] assms by auto
  let ?f = "\<lambda>cat.
                 case bucket_read breakdown M (id_cat cat) of
                   Inl e \<Rightarrow> Inl e
                 | Inr spentInSelectedMonth \<Rightarrow>
                     let rolloverAmount = js_or_zero (obj_get r (id_cat cat));
                         effectiveSpending = js_add (to_number spentInSelectedMonth) rolloverAmount
                     in Inr (progress_of cat effectiveSpending (budget cat) rolloverAmount)"
  have "\<exists>p. ?f cat = Inr p \<and> (\<exists>q. rollover p = Num q \<and> 0 \<le> q)"
    if "cat \<in> set categories" for cat
  proof -
    have "id_cat cat \<in> id_cat ` set categories"
      using that by (rule imageI)
    from nonneg_onD [OF nn this]
    obtain q where q: "obj_get r (id_cat cat) = Some (Num q)" and nonneg: "0 \<le> q"
      by blast
    have jz: "js_or_zero (obj_get r (id_cat cat)) = Num q"
      using q nonneg by (rule js_or_zero_nonneg)
    have "?f cat = Inr (progress_of cat
             (js_add (to_number (obj_get (breakdown ! M) (id_cat cat))) (Num q)) (budget cat) (Num q))"
      using assms by (simp add: bucket_read_def Let_def jz)
    moreover have "rollover (progress_of cat
             (js_add (to_number (obj_get (breakdown ! M) (id_cat cat))) (Num q)) (budget cat) (Num q))
           = Num q"
      by (simp add: progress_of_def)
    ultimately show ?thesis
      using nonneg by blast
  qed
  then have "\<forall>cat\<in>set categories. \<exists>p. ?f cat = Inr p \<and> (\<exists>q. rollover p = Num q \<and> 0 \<le> q)"
    by blast
  then have "\<exists>ps. map_result ?f categories = Inr ps \<and> length ps = length categories \<and>
                   (\<forall>p\<in>set ps. \<exists>q. rollover p = Num q \<and> 0 \<le> q)"
    by (rule map_result_all)
  moreover have "categoryProgressData categories breakdown (Month M) = map_result ?f categories"
    by (simp add: categoryProgressData_def r)
  ultimately show ?thesis by simp
qed

text \<open>
  C9. For every entry list, year and category of the category list, and every selected
  month \<open>M\<close> (0..11): the rollover loop returns, and the rollover of the category after
  each number of processed months up to \<open>M\<close> is a number greater than or equal to zero;
  the progress list of month \<open>M\<close> is returned, with one entry per category, each with
  a rollover greater than or equal to zero.
\<close>

theorem rollover_never_negative:
  assumes "M < 12" and "month \<le> M" and "cat \<in> set categories"
  shows "(\<exists>rollovers q.
            rollovers_before categories (monthlyBreakdown newDate categories budgetEntries Y) month
              = Inr rollovers \<and>
            obj_get rollovers (id_cat cat) = Some (Num q) \<and> 0 \<le> q) \<and>
         (\<exists>ps. categoryProgressData categories
                  (monthlyBreakdown newDate categories budgetEntries Y) (Month M) = Inr ps \<and>
               length ps = length categories \<and>
               (\<forall>p\<in>set ps. \<exists>q. rollover p = Num q \<and> 0 \<le> q))"
proof -
  let ?b = "monthlyBreakdown newDate categories budgetEntries Y"
  have "month \<le> length ?b" and M: "M < length ?b"
    using assms(1,2) by (simp_all add: length_monthlyBreakdown)
  from rollovers_before_nonneg [OF this(1)]
  obtain r where r: "rollovers_before categories ?b month = Inr r"
    and nn: "nonneg_on (id_cat ` set categories) r"
    by blast
  have "id_cat cat \<in> id_cat ` set categories"
    using assms(3) by (rule imageI)
  from nonneg_onD [OF nn this]
  obtain q where "obj_get r (id_cat cat) = Some (Num q)" and "0 \<le> q"
    by blast
  with r have "\<exists>rollovers q. rollovers_before categories ?b month = Inr rollovers \<and>
            obj_get rollovers (id_cat cat) = Some (Num q) \<and> 0 \<le> q"
    by blast
  with reported_rollover_nonneg [OF M, of categories] show ?thesis
    by (rule conjI [rotated])
qed

theorem rollover_never_negative_witness:
  "(2::nat) < 12 \<and> (1::nat) \<le> 2 \<and> hd sample_categories \<in> set sample_categories \<and>
   (\<exists>rollovers q.
      rollovers_before sample_categories
        (monthlyBreakdown sample_newDate sample_categories sample_entries 2023) 1 = Inr rollovers \<and>
      obj_get rollovers ''travel'' = Some (Num q) \<and> 0 \<le> q) \<and>
   rollovers_before sample_categories sample_breakdown 1 = Inr [(''travel'', Num 50), (''misc'', Num 0)] \<and>
   rollovers_before sample_categories sample_breakdown 2 = Inr [(''travel'', Num 0), (''misc'', Num 0)]"
proof -
  have cat: "hd sample_categories \<in> set sample_categories"
    by (simp add: sample_categories_def)
  have id: "id_cat (hd sample_categories) = ''travel''"
    by (simp add: sample_categories_def)
  have v1: "rollovers_before sample_categories sample_breakdown 1 =
              Inr [(''travel'', Num 50), (''misc'', Num 0)]"
    by code_simp
  have v2: "rollovers_before sample_categories sample_breakdown 2 =
              Inr [(''travel'', Num 0), (''misc'', Num 0)]"
    by code_simp
  show ?thesis
    using cat v1 v2
      rollover_never_negative [of 2 1 "hd sample_categories" sample_categories sample_newDate
        sample_entries 2023]
    by (simp add: id)
qed

section \<open>Entries whose date does not parse\<close>

lemma monthlyBreakdown_entry_invalid:
  "newDate (date e @ ''T00:00:00Z'') = InvalidDate \<Longrightarrow> monthlyBreakdown_entry newDate Y e b = b"
  by (simp add: monthlyBreakdown_entry_def)

text \<open>
  C10. An entry whose date string does not parse has \<open>NaN\<close> for its UTC year and
  month; the breakdown builder and the period filter skip it: the breakdown of every
  year is the one of the list without the entry, and the entry is in no filtered list,
  for every period. Both functions return a value: no exception is raised.
\<close>

theorem unparsed_date_skipped:
  assumes "newDate (date e @ ''T00:00:00Z'') = InvalidDate"
  shows "getUTCFullYear (newDate (date e @ ''T00:00:00Z'')) = NaN \<and>
         getUTCMonth (newDate (date e @ ''T00:00:00Z'')) = NaN \<and>
         monthlyBreakdown newDate categories (xs @ e # ys) Y =
           monthlyBreakdown newDate categories (xs @ ys) Y \<and>
         e \<notin> set (entriesForPeriod newDate budgetEntries Y selectedPeriod) \<and>
         entriesForPeriod newDate (xs @ e # ys) Y selectedPeriod =
           entriesForPeriod newDate (xs @ ys) Y selectedPeriod"
proof -
  have "monthlyBreakdown newDate categories (xs @ e # ys) Y =
          monthlyBreakdown newDate categories (xs @ ys) Y"
    using assms by (simp add: monthlyBreakdown_def monthlyBreakdown_entry_invalid)
  moreover have "e \<notin> set (entriesForPeriod newDate budgetEntries Y selectedPeriod)"
    using assms by (simp add: entriesForPeriod_def split: period.split)
  moreover have "entriesForPeriod newDate (xs @ e # ys) Y selectedPeriod =
           entriesForPeriod newDate (xs @ ys) Y selectedPeriod"
    using assms by (simp add: entriesForPeriod_def split: period.split)
  ultimately show ?thesis
    using assms by simp
qed

theorem unparsed_date_skipped_witness:
  "sample_newDate (date undated @ ''T00:00:00Z'') = InvalidDate \<and>
   monthlyBreakdown sample_newDate sample_categories [railpass, gift, flight, undated] 2023 =
     monthlyBreakdown sample_newDate sample_categories [railpass, gift, flight] 2023 \<and>
   undated \<notin> set (entriesForPeriod sample_newDate sample_entries 2023 Year)"
proof -
  have inv: "sample_newDate (date undated @ ''T00:00:00Z'') = InvalidDate"
    by (simp add: sample_newDate_def undated_def)
  show ?thesis
    using inv unparsed_date_skipped [where newDate = sample_newDate and e = undated
        and categories = sample_categories and xs = "[railpass, gift, flight]" and ys = "[]"
        and Y = 2023 and budgetEntries = sample_entries and selectedPeriod = Year]
    by simp
qed

end
